(* ===== verification/Agent_Prelude.thy ===== *)
theory Agent_Prelude
  imports Main
begin

text \<open>
  Shared vocabulary of the development: the JavaScript semantics that
  \<^verbatim>\<open>src/examples/agent.js\<close> relies on without saying so.
  \<^item> A plain object \<^verbatim>\<open>{}\<close> used as a set of conversation ids (\<^verbatim>\<open>openConvs\<close>):
    reading \<^verbatim>\<open>obj[k]\<close> also finds the names \<^verbatim>\<open>Object.prototype\<close> provides,
    assigning \<^verbatim>\<open>obj['__proto__']\<close> creates no own property, and \<^verbatim>\<open>delete\<close>
    removes the own property only.
  \<^item> A plain object used as an ordered dictionary (\<^verbatim>\<open>respond\<close>): an
    association list in property-creation order, where assigning an existing key
    keeps its position and \<^verbatim>\<open>delete\<close> removes it.
  \<^item> The decimal printing of a non-negative integer in a template literal, with
    its parser, so that the composite key \<^verbatim>\<open>`${dialogId}-${sequence}`\<close> can be
    shown injective.
  \<^item> \<^verbatim>\<open>String.prototype.startsWith\<close>.
\<close>

named_theorems agent_simps "rewrite rules shared by the component proofs"

type_synonym conv_id = string

section \<open>Plain objects as sets of keys\<close>

definition object_prototype_keys :: "string list" where
  "object_prototype_keys =
    [''constructor'', ''__defineGetter__'', ''__defineSetter__'', ''hasOwnProperty'',
     ''__lookupGetter__'', ''__lookupSetter__'', ''isPrototypeOf'',
     ''propertyIsEnumerable'', ''toString'', ''valueOf'', ''__proto__'',
     ''toLocaleString'']"

type_synonym 'v js_dict = "string \<rightharpoonup> 'v"

text \<open>
  \<^verbatim>\<open>if (obj[k])\<close> on an object whose own values are all objects (truthy): true
  when \<open>k\<close> is an own key or an inherited name of \<^verbatim>\<open>Object.prototype\<close>.
\<close>

definition js_has :: "'v js_dict \<Rightarrow> string \<Rightarrow> bool" where
  "js_has m k \<longleftrightarrow> k \<in> dom m \<or> k \<in> set object_prototype_keys"

text \<open>\<^verbatim>\<open>obj[k] = v\<close>: the key \<^verbatim>\<open>__proto__\<close> sets the prototype, not a property.\<close>

definition js_put :: "'v js_dict \<Rightarrow> string \<Rightarrow> 'v \<Rightarrow> 'v js_dict" where
  "js_put m k v = (if k = ''__proto__'' then m else m(k \<mapsto> v))"

text \<open>\<^verbatim>\<open>delete obj[k]\<close>: removes an own property; inherited names stay visible.\<close>

definition js_delete :: "'v js_dict \<Rightarrow> string \<Rightarrow> 'v js_dict" where
  "js_delete m k = m(k := None)"

definition proto_free :: "string \<Rightarrow> bool" where
  "proto_free k \<longleftrightarrow> k \<notin> set object_prototype_keys"

section \<open>Plain objects as ordered dictionaries\<close>

text \<open>
  Property order of an object whose keys are no array indices is creation order.
  \<open>obj_set\<close> overwrites in place, \<open>obj_delete\<close> removes.
\<close>

fun obj_set :: "'k \<Rightarrow> 'v \<Rightarrow> ('k \<times> 'v) list \<Rightarrow> ('k \<times> 'v) list" where
  "obj_set k v [] = [(k, v)]"
| "obj_set k v ((k', v') # ps) =
     (if k' = k then (k, v) # ps else (k', v') # obj_set k v ps)"

fun obj_delete :: "'k \<Rightarrow> ('k \<times> 'v) list \<Rightarrow> ('k \<times> 'v) list" where
  "obj_delete k [] = []"
| "obj_delete k ((k', v') # ps) =
     (if k' = k then obj_delete k ps else (k', v') # obj_delete k ps)"

section \<open>Decimal printing of sequence numbers\<close>

definition digit_char :: "nat \<Rightarrow> char" where
  "digit_char d = char_of (48 + d)"

fun dec_string :: "nat \<Rightarrow> string" where
  "dec_string n =
     (if n < 10 then [digit_char n] else dec_string (n div 10) @ [digit_char (n mod 10)])"

declare dec_string.simps [simp del]

definition digit_value :: "char \<Rightarrow> nat" where
  "digit_value c = of_char c - 48"

definition dec_value :: "string \<Rightarrow> nat" where
  "dec_value s = foldl (\<lambda>acc c. 10 * acc + digit_value c) 0 s"

section \<open>String.prototype.startsWith\<close>

fun starts_with :: "string \<Rightarrow> string \<Rightarrow> bool" where
  "starts_with s [] = True"
| "starts_with [] (p # ps) = False"
| "starts_with (c # cs) (p # ps) = (c = p \<and> starts_with cs ps)"

section \<open>Lemmas\<close>

subsection \<open>Key sets\<close>

lemma js_has_put [agent_simps]:
  "proto_free k \<Longrightarrow> js_has (js_put m k v) j \<longleftrightarrow> j = k \<or> js_has m j"
  by (auto simp: js_has_def js_put_def proto_free_def object_prototype_keys_def)

lemma js_has_delete [agent_simps]:
  "proto_free k \<Longrightarrow> js_has (js_delete m k) j \<longleftrightarrow> j \<noteq> k \<and> js_has m j"
  by (auto simp: js_has_def js_delete_def proto_free_def)

lemma js_has_proto_free:
  "proto_free k \<Longrightarrow> js_has m k \<longleftrightarrow> k \<in> dom m"
  by (auto simp: js_has_def proto_free_def)

lemma js_has_proto:
  "\<not> proto_free k \<Longrightarrow> js_has m k"
  by (simp add: js_has_def proto_free_def)

subsection \<open>Ordered dictionaries against maps\<close>

lemma map_of_obj_set [agent_simps]: "map_of (obj_set k v ps) = (map_of ps)(k \<mapsto> v)"
  by (induction ps) (auto simp: fun_eq_iff)

lemma map_of_obj_delete [agent_simps]: "map_of (obj_delete k ps) = (map_of ps)(k := None)"
  by (induction ps) (auto simp: fun_eq_iff)

lemma map_fst_obj_set [agent_simps]:
  "map fst (obj_set k v ps) = (if k \<in> set (map fst ps) then map fst ps else map fst ps @ [k])"
  by (induction ps) (auto simp: rev_image_eqI)

lemma map_fst_obj_delete [agent_simps]:
  "map fst (obj_delete k ps) = filter (\<lambda>x. x \<noteq> k) (map fst ps)"
  by (induction ps) auto

lemma obj_delete_filter: "obj_delete k ps = filter (\<lambda>p. fst p \<noteq> k) ps"
  by (induction ps) auto

lemma set_obj_set: "set (obj_set k v ps) \<subseteq> insert (k, v) (set ps)"
  by (induction ps) (auto split: if_splits)

lemma obj_set_new: "k \<notin> fst ` set ps \<Longrightarrow> obj_set k v ps = ps @ [(k, v)]"
  by (induction ps) auto

lemma distinct_obj_set [agent_simps]:
  "distinct (map fst ps) \<Longrightarrow> distinct (map fst (obj_set k v ps))"
  by (simp add: map_fst_obj_set)

lemma distinct_obj_delete [agent_simps]:
  "distinct (map fst ps) \<Longrightarrow> distinct (map fst (obj_delete k ps))"
  by (simp add: map_fst_obj_delete)

lemma length_obj_set: "length (obj_set k v ps) \<le> Suc (length ps)"
  by (induction ps) auto

lemma length_obj_delete: "length (obj_delete k ps) \<le> length ps"
  by (simp add: obj_delete_filter)

lemma starts_with_take: "starts_with s p \<longleftrightarrow> take (length p) s = p"
  by (induction s p rule: starts_with.induct) auto

subsection \<open>Decimal printing round trip\<close>

lemma digit_value_digit_char [agent_simps]: "d < 10 \<Longrightarrow> digit_value (digit_char d) = d"
  by (simp add: digit_value_def digit_char_def)

lemma digit_char_eq [agent_simps]:
  "a < 10 \<Longrightarrow> b < 10 \<Longrightarrow> digit_char a = digit_char b \<longleftrightarrow> a = b"
  by (metis digit_value_digit_char)

lemma dec_value_snoc: "dec_value (s @ [c]) = 10 * dec_value s + digit_value c"
  by (simp add: dec_value_def)

lemma dec_value_dec_string [agent_simps]: "dec_value (dec_string n) = n"
proof (induction n rule: dec_string.induct)
  case (1 n)
  show ?case
  proof (cases "n < 10")
    case True
    then show ?thesis
      by (simp add: dec_string.simps [of n] dec_value_def digit_value_digit_char)
  next
    case False
    then have "dec_value (dec_string n) = 10 * dec_value (dec_string (n div 10)) + n mod 10"
      by (simp add: dec_string.simps [of n] dec_value_snoc digit_value_digit_char)
    with "1.IH" False show ?thesis by simp
  qed
qed

lemma dec_string_inj: "dec_string a = dec_string b \<Longrightarrow> a = b"
  by (metis dec_value_dec_string)

end
