(* ===== verification/Agent_Platform.thy ===== *)
theory Agent_Platform
  imports Agent_Prelude
begin

text \<open>
  The interface between the agent of \<^verbatim>\<open>src/examples/agent.js\<close> and the messaging
  platform client it extends (\<^verbatim>\<open>lib/AgentSDK\<close>, not part of the sources): the
  requests the handlers issue, the state of one \<^verbatim>\<open>MyCoolAgent\<close> object, and
  its construction. A handler is modelled as a function from the agent state to the
  next one; every request it issues is appended to the \<open>outbox\<close>, in issue order.
  A JavaScript exception escaping a handler is a value \<open>js_error\<close> returned beside
  the state, because the mutations done before the throw persist.
\<close>

datatype js_error = TypeError string

text \<open>The \<^verbatim>\<open>type\<close> field of a change record, compared with \<^verbatim>\<open>===\<close>.\<close>

datatype change_type = UPSERT | DELETE | OtherChangeType string

text \<open>The \<^verbatim>\<open>event\<close> argument of \<^verbatim>\<open>publishEvent\<close>.\<close>

datatype published_event =
    PubContentEvent string string \<comment> \<open>\<^verbatim>\<open>contentType\<close>, \<^verbatim>\<open>message\<close>\<close>
  | PubAcceptStatusEvent string "nat list" \<comment> \<open>\<^verbatim>\<open>status\<close>, \<^verbatim>\<open>sequenceList\<close>\<close>

datatype conv_field = ConversationStateField string

text \<open>
  One constructor per request method of the platform client that the agent calls.
  \<open>GetUserProfile uid cid\<close> carries the conversation id that its completion
  callback captures.
\<close>

datatype request =
    SetAgentState string
  | SubscribeExConversations "string list"
  | SubscribeRoutingTasks
  | UpdateRingState string string
  | GetUserProfile string conv_id
  | PublishEvent conv_id published_event
  | SubscribeMessagingEvents conv_id
  | UpdateConversationField conv_id "conv_field list"

text \<open>
  The value of \<^verbatim>\<open>event.message\<close>: a string for a text message; for other content
  (a missing field, a structured payload) any non-string value, which the code never
  inspects beyond calling string methods on it.
\<close>

datatype js_value = JsString string | JsNonString

text \<open>The object \<^verbatim>\<open>{dialogId, sequence, message}\<close> stored in \<^verbatim>\<open>respond\<close>.\<close>

record content_event =
  ce_dialog_id :: conv_id
  ce_sequence :: nat
  ce_message :: js_value

text \<open>
  The reply function passed to the constructor: given the content event, the requests
  it issues on the agent, and the exception it throws, if any (after the requests it
  issued before throwing).
\<close>

type_synonym reply_function = "content_event \<Rightarrow> request list \<times> js_error option"

text \<open>
  The state of a \<^verbatim>\<open>MyCoolAgent\<close>: the closure variable \<^verbatim>\<open>openConvs\<close> of
  \<^verbatim>\<open>init\<close>, the \<^verbatim>\<open>replyFunction\<close> field, the profile-lookup callbacks not yet
  completed, and the log of issued requests.
\<close>

record agent =
  open_convs :: "unit js_dict"
  pending_profiles :: "(string \<times> conv_id) list"
  outbox :: "request list"
  reply_fn :: reply_function

text \<open>\<^verbatim>\<open>new MyCoolAgent(conf, replyFunction)\<close>: \<^verbatim>\<open>init()\<close> creates the empty
  \<^verbatim>\<open>openConvs\<close>, then the reply function is stored.\<close>

definition new_agent :: "reply_function \<Rightarrow> agent" where
  "new_agent reply =
     \<lparr>open_convs = Map.empty, pending_profiles = [], outbox = [], reply_fn = reply\<rparr>"

definition emit :: "agent \<Rightarrow> request list \<Rightarrow> agent" where
  "emit s rs = s\<lparr>outbox := outbox s @ rs\<rparr>"

lemma emit_simps [simp, agent_simps]:
  "open_convs (emit s rs) = open_convs s"
  "pending_profiles (emit s rs) = pending_profiles s"
  "outbox (emit s rs) = outbox s @ rs"
  "reply_fn (emit s rs) = reply_fn s"
  by (simp_all add: emit_def)

lemma emit_append: "emit (emit s xs) ys = emit s (xs @ ys)"
  by (simp add: emit_def)

lemma emit_Nil [simp]: "emit s [] = s"
  by (simp add: emit_def)

end
