(* ===== verification/Ring_Acceptance.thy ===== *)
theory Ring_Acceptance
  imports Agent_Platform
begin

text \<open>
  The handler of \<^verbatim>\<open>routing.RoutingTaskNotification\<close>
  (\<^verbatim>\<open>src/examples/agent.js\<close>, lines 40--53): for every \<^verbatim>\<open>UPSERT\<close> change, every
  ring detail in state \<^verbatim>\<open>WAITING\<close> is accepted by one \<^verbatim>\<open>updateRingState\<close>
  request. The handler reads and writes no conversation state.
\<close>

record ring_detail =
  ring_id :: string
  ring_state :: string

record routing_change =
  rt_type :: change_type
  rings_details :: "ring_detail list"

text \<open>The inner \<^verbatim>\<open>ringsDetails.forEach\<close>.\<close>

fun accept_waiting_rings :: "ring_detail list \<Rightarrow> request list" where
  "accept_waiting_rings [] = []"
| "accept_waiting_rings (r # rs) =
     (if ring_state r = ''WAITING'' then [UpdateRingState (ring_id r) ''ACCEPTED''] else [])
     @ accept_waiting_rings rs"

text \<open>The outer \<^verbatim>\<open>body.changes.forEach\<close>.\<close>

fun routing_requests :: "routing_change list \<Rightarrow> request list" where
  "routing_requests [] = []"
| "routing_requests (c # cs) =
     (if rt_type c = UPSERT then accept_waiting_rings (rings_details c) else [])
     @ routing_requests cs"

definition on_routing_task_notification :: "agent \<Rightarrow> routing_change list \<Rightarrow> agent" where
  "on_routing_task_notification s cs = emit s (routing_requests cs)"

text \<open>
  The reference behaviour of the spec (section 4.3): the rings to accept are the
  waiting ring details of the upsert changes, in notification order.
\<close>

definition waiting_rings_of :: "routing_change list \<Rightarrow> ring_detail list" where
  "waiting_rings_of cs =
     [r \<leftarrow> concat [rings_details c. c \<leftarrow> cs, rt_type c = UPSERT]. ring_state r = ''WAITING'']"

lemma accept_waiting_rings_eq:
  "accept_waiting_rings rs =
     map (\<lambda>r. UpdateRingState (ring_id r) ''ACCEPTED'') [r \<leftarrow> rs. ring_state r = ''WAITING'']"
  by (induction rs) auto

lemma routing_requests_eq:
  "routing_requests cs =
     map (\<lambda>r. UpdateRingState (ring_id r) ''ACCEPTED'') (waiting_rings_of cs)"
  by (induction cs) (auto simp: waiting_rings_of_def accept_waiting_rings_eq)

lemma on_routing_task_notification_state [agent_simps]:
  "open_convs (on_routing_task_notification s cs) = open_convs s"
  "pending_profiles (on_routing_task_notification s cs) = pending_profiles s"
  "reply_fn (on_routing_task_notification s cs) = reply_fn s"
  by (simp_all add: on_routing_task_notification_def)

end
