(* ===== verification/Conversation_Lifecycle.thy ===== *)
theory Conversation_Lifecycle
  imports Agent_Platform "HOL-Library.Sublist"
begin

text \<open>
  The handler of \<^verbatim>\<open>cqm.ExConversationChangeNotification\<close>
  (\<^verbatim>\<open>src/examples/agent.js\<close>, lines 56--84) and the conversation registry
  \<^verbatim>\<open>openConvs\<close> it maintains. An upsert that no longer names this agent
  \<^verbatim>\<open>ASSIGNED_AGENT\<close> removes the conversation; an upsert that does, for a
  conversation not yet present, adds it, looks up the first consumer participant's
  profile (whose callback publishes the greeting) and subscribes to the conversation's
  messaging events; a delete removes it. \<^verbatim>\<open>participants.filter(...)[0].id\<close>
  throws a \<^verbatim>\<open>TypeError\<close> when there is no consumer: the conversation has then
  already been added, and the remaining changes of the batch are not processed.
\<close>

record participant =
  participant_id :: string
  participant_role :: string

text \<open>A change record: \<^verbatim>\<open>change.type\<close>, \<^verbatim>\<open>change.result.convId\<close>,
  \<^verbatim>\<open>conversationDetails.getMyRole()\<close> and \<^verbatim>\<open>conversationDetails.participants\<close>.\<close>

record conv_change =
  cc_type :: change_type
  cc_conv_id :: conv_id
  cc_my_role :: string
  cc_participants :: "participant list"

definition first_consumer_id :: "participant list \<Rightarrow> js_error + string" where
  "first_consumer_id ps =
     (case filter (\<lambda>p. participant_role p = ''CONSUMER'') ps of
        [] \<Rightarrow> Inl (TypeError ''Cannot read properties of undefined (reading id)'')
      | p # _ \<Rightarrow> Inr (participant_id p))"

text \<open>One iteration of \<^verbatim>\<open>notificationBody.changes.forEach\<close>.\<close>

definition on_conv_change :: "agent \<Rightarrow> conv_change \<Rightarrow> agent \<times> js_error option" where
  "on_conv_change s c =
     (let cid = cc_conv_id c in
      if cc_type c = UPSERT then
        (let s1 = (if js_has (open_convs s) cid \<and> cc_my_role c \<noteq> ''ASSIGNED_AGENT''
                   then s\<lparr>open_convs := js_delete (open_convs s) cid\<rparr> else s)
         in if \<not> js_has (open_convs s1) cid \<and> cc_my_role c = ''ASSIGNED_AGENT'' then
              (let s2 = s1\<lparr>open_convs := js_put (open_convs s1) cid ()\<rparr>
               in case first_consumer_id (cc_participants c) of
                    Inl e \<Rightarrow> (s2, Some e)
                  | Inr uid \<Rightarrow>
                      (emit (s2\<lparr>pending_profiles := pending_profiles s2 @ [(uid, cid)]\<rparr>)
                         [GetUserProfile uid cid, SubscribeMessagingEvents cid], None))
            else (s1, None))
      else if cc_type c = DELETE then (s\<lparr>open_convs := js_delete (open_convs s) cid\<rparr>, None)
      else (s, None))"

text \<open>The whole \<^verbatim>\<open>forEach\<close>: an exception ends it.\<close>

fun on_conv_changes :: "agent \<Rightarrow> conv_change list \<Rightarrow> agent \<times> js_error option" where
  "on_conv_changes s [] = (s, None)"
| "on_conv_changes s (c # cs) =
     (case on_conv_change s c of
        (s', None) \<Rightarrow> on_conv_changes s' cs
      | (s', Some e) \<Rightarrow> (s', Some e))"

section \<open>The registry as a set\<close>

text \<open>
  The registry's contract (spec, section 4.1/4.2) on an abstract set of ids: an
  assigning upsert adds, a non-assigning upsert and a delete remove, other change
  types leave it alone.
\<close>

definition registry_step :: "conv_id set \<Rightarrow> conv_change \<Rightarrow> conv_id set" where
  "registry_step R c =
     (if cc_type c = UPSERT then
        (if cc_my_role c = ''ASSIGNED_AGENT'' then insert (cc_conv_id c) R
         else R - {cc_conv_id c})
      else if cc_type c = DELETE then R - {cc_conv_id c}
      else R)"

text \<open>Well-formedness of the registry: no own key is an inherited name.\<close>

definition registry_wf :: "agent \<Rightarrow> bool" where
  "registry_wf s \<longleftrightarrow> (\<forall>k \<in> dom (open_convs s). proto_free k)"

text \<open>Does a change record decide the membership of \<open>k\<close>, and how.\<close>

definition decides :: "conv_id \<Rightarrow> conv_change \<Rightarrow> bool" where
  "decides k c \<longleftrightarrow> cc_conv_id c = k \<and> (cc_type c = UPSERT \<or> cc_type c = DELETE)"

definition assigns :: "conv_change \<Rightarrow> bool" where
  "assigns c \<longleftrightarrow> cc_type c = UPSERT \<and> cc_my_role c = ''ASSIGNED_AGENT''"

text \<open>The last record of a batch that decides \<open>k\<close> (spec, invariant I1).\<close>

definition last_decision :: "conv_id \<Rightarrow> conv_change list \<Rightarrow> conv_change option" where
  "last_decision k cs = find (decides k) (rev cs)"

text \<open>A profile lookup waiting for its response was issued, together with the subscription.\<close>

definition lookups_issued :: "agent \<Rightarrow> bool" where
  "lookups_issued s \<longleftrightarrow>
     (\<forall>(u, c) \<in> set (pending_profiles s).
        GetUserProfile u c \<in> set (outbox s) \<and> SubscribeMessagingEvents c \<in> set (outbox s))"

section \<open>Lemmas\<close>

lemma on_conv_change_other_key [agent_simps]:
  "cc_conv_id c \<noteq> k \<Longrightarrow> open_convs (fst (on_conv_change s c)) k = open_convs s k"
  by (auto simp: on_conv_change_def Let_def js_put_def js_delete_def
           split: sum.splits if_splits)

lemma on_conv_change_reply_fn [agent_simps]:
  "reply_fn (fst (on_conv_change s c)) = reply_fn s"
  by (auto simp: on_conv_change_def Let_def split: sum.splits)

lemma on_conv_change_outbox_prefix:
  "\<exists>rs. outbox (fst (on_conv_change s c)) = outbox s @ rs"
  by (auto simp: on_conv_change_def Let_def split: sum.splits)

text \<open>How one change record moves the membership of an id that is not an inherited name.\<close>

lemma on_conv_change_has:
  assumes "proto_free k"
  shows "js_has (open_convs (fst (on_conv_change s c))) k \<longleftrightarrow>
           (if decides k c then assigns c else js_has (open_convs s) k)"
proof (cases "cc_conv_id c = k")
  case True
  with assms show ?thesis
    by (auto simp: on_conv_change_def Let_def decides_def assigns_def agent_simps
             split: sum.splits)
next
  case False
  then have "open_convs (fst (on_conv_change s c)) k = open_convs s k"
    by (rule on_conv_change_other_key)
  with False show ?thesis by (simp add: js_has_def decides_def dom_def)
qed

lemma on_conv_change_wf:
  "registry_wf s \<Longrightarrow> registry_wf (fst (on_conv_change s c))"
  by (auto simp: registry_wf_def on_conv_change_def Let_def js_put_def js_delete_def
                 js_has_def proto_free_def split: sum.splits if_splits)

lemma on_conv_changes_wf:
  "registry_wf s \<Longrightarrow> registry_wf (fst (on_conv_changes s cs))"
proof (induction s cs rule: on_conv_changes.induct)
  case (1 s)
  then show ?case by simp
next
  case (2 s c cs)
  obtain s' e where eq: "on_conv_change s c = (s', e)" by fastforce
  from "2.prems" have "registry_wf s'"
    using on_conv_change_wf [of s c] eq by simp
  with eq "2.IH" show ?case by (cases e) simp_all
qed

lemma find_snoc: "find P (xs @ [x]) = (case find P xs of None \<Rightarrow> (if P x then Some x else None) | Some y \<Rightarrow> Some y)"
  by (induction xs) auto

lemma last_decision_Cons:
  "last_decision k (c # cs) =
     (case last_decision k cs of None \<Rightarrow> (if decides k c then Some c else None) | Some c' \<Rightarrow> Some c')"
  by (simp add: last_decision_def find_snoc)

text \<open>Membership after a batch that completes, for an id that is not an inherited name.\<close>

lemma on_conv_changes_has:
  assumes "on_conv_changes s cs = (s', None)" and "proto_free k"
  shows "js_has (open_convs s') k \<longleftrightarrow>
           (case last_decision k cs of None \<Rightarrow> js_has (open_convs s) k | Some c \<Rightarrow> assigns c)"
  using assms(1)
proof (induction cs arbitrary: s)
  case Nil
  then show ?case by (simp add: last_decision_def)
next
  case (Cons c cs)
  then obtain s1 where s1: "on_conv_change s c = (s1, None)" and rest: "on_conv_changes s1 cs = (s', None)"
    by (auto split: prod.splits option.splits)
  have one: "js_has (open_convs s1) k \<longleftrightarrow> (if decides k c then assigns c else js_has (open_convs s) k)"
    using on_conv_change_has [OF assms(2), of s c] s1 by simp
  from Cons.IH [OF rest] one show ?case
    by (simp add: last_decision_Cons split: option.splits)
qed

text \<open>The registry refines its set contract for ids that are not inherited names.\<close>

lemma on_conv_change_refines:
  assumes "registry_wf s" and "proto_free (cc_conv_id c)"
  shows "dom (open_convs (fst (on_conv_change s c))) = registry_step (dom (open_convs s)) c"
proof (rule set_eqI)
  fix k
  have wf': "registry_wf (fst (on_conv_change s c))"
    using assms(1) by (rule on_conv_change_wf)
  show "k \<in> dom (open_convs (fst (on_conv_change s c))) \<longleftrightarrow> k \<in> registry_step (dom (open_convs s)) c"
  proof (cases "proto_free k")
    case True
    then show ?thesis
      using on_conv_change_has [OF True, of s c]
      by (auto simp: js_has_proto_free registry_step_def decides_def assigns_def)
  next
    case False
    with assms wf' show ?thesis
      by (auto simp: registry_wf_def registry_step_def)
  qed
qed

text \<open>A change whose consumer lookup throws: what is left of the batch is dropped.\<close>

lemma on_conv_changes_throw:
  assumes "on_conv_change s c = (s', Some e)"
  shows "on_conv_changes s (c # cs) = (s', Some e)"
  using assms by simp

text \<open>Only an assigning upsert whose consumer lookup fails throws.\<close>

lemma on_conv_change_throws:
  "on_conv_change s c = (s', Some e) \<Longrightarrow>
     assigns c \<and> first_consumer_id (cc_participants c) = Inl e"
  by (auto simp: on_conv_change_def Let_def assigns_def split: if_splits sum.splits)

lemma last_decision_append:
  "last_decision k (xs @ ys) =
     (case last_decision k ys of None \<Rightarrow> last_decision k xs | Some c \<Rightarrow> Some c)"
  by (induction ys rule: rev_induct)
     (simp_all add: last_decision_def find_snoc split: option.splits)

lemma on_conv_change_lookups_issued:
  "lookups_issued s \<Longrightarrow> lookups_issued (fst (on_conv_change s c))"
  by (auto simp: lookups_issued_def on_conv_change_def Let_def split: sum.splits)

lemma on_conv_changes_frame:
  "reply_fn (fst (on_conv_changes s cs)) = reply_fn s \<and>
   (\<exists>rs. outbox (fst (on_conv_changes s cs)) = outbox s @ rs) \<and>
   (lookups_issued s \<longrightarrow> lookups_issued (fst (on_conv_changes s cs)))"
proof (induction s cs rule: on_conv_changes.induct)
  case (1 s)
  then show ?case by simp
next
  case (2 s c cs)
  obtain s' e where eq: "on_conv_change s c = (s', e)" by fastforce
  have one: "reply_fn s' = reply_fn s" "\<exists>rs. outbox s' = outbox s @ rs"
      "lookups_issued s \<longrightarrow> lookups_issued s'"
    using on_conv_change_reply_fn [of s c] on_conv_change_outbox_prefix [of s c]
          on_conv_change_lookups_issued [of s c] eq by simp_all
  show ?case
  proof (cases e)
    case None
    with eq "2.IH" one show ?thesis by fastforce
  next
    case (Some x)
    with eq one show ?thesis by simp
  qed
qed

text \<open>
  What a batch applies: a prefix of its records, the whole batch when it completes, and
  up to the throwing record, an assigning upsert without consumer, when it throws. The
  registry is what that prefix decides, for ids that are not inherited names.
\<close>

lemma on_conv_changes_applied:
  assumes "on_conv_changes s cs = (s', e)" and "proto_free k"
  shows "\<exists>b. prefix b cs \<and> (e = None \<longrightarrow> b = cs) \<and>
           (\<forall>x. e = Some x \<longrightarrow> b \<noteq> [] \<and> assigns (last b) \<and>
                   first_consumer_id (cc_participants (last b)) = Inl x) \<and>
           (js_has (open_convs s') k \<longleftrightarrow>
              (case last_decision k b of None \<Rightarrow> js_has (open_convs s) k | Some c \<Rightarrow> assigns c))"
  using assms(1)
proof (induction cs arbitrary: s)
  case Nil
  then show ?case by (intro exI [of _ "[]"]) (simp add: last_decision_def)
next
  case (Cons c cs)
  obtain s1 e1 where h: "on_conv_change s c = (s1, e1)" by fastforce
  have one: "js_has (open_convs s1) k \<longleftrightarrow> (if decides k c then assigns c else js_has (open_convs s) k)"
    using on_conv_change_has [OF assms(2), of s c] h by simp
  show ?case
  proof (cases e1)
    case (Some x)
    with h Cons.prems have "s1 = s'" and "e = Some x" by simp_all
    with h Some on_conv_change_throws [of s c s1 x] one show ?thesis
      by (intro exI [of _ "[c]"]) (simp add: last_decision_def)
  next
    case None
    with h Cons.prems have "on_conv_changes s1 cs = (s', e)" by simp
    from Cons.IH [OF this] obtain b where b: "prefix b cs" "e = None \<longrightarrow> b = cs"
      "\<forall>x. e = Some x \<longrightarrow> b \<noteq> [] \<and> assigns (last b) \<and>
              first_consumer_id (cc_participants (last b)) = Inl x"
      "js_has (open_convs s') k \<longleftrightarrow>
         (case last_decision k b of None \<Rightarrow> js_has (open_convs s1) k | Some c \<Rightarrow> assigns c)"
      by blast
    with one show ?thesis
      by (intro exI [of _ "c # b"]) (auto simp: last_decision_Cons split: option.splits)
  qed
qed

end
