(* ===== verification/Message_Reconciliation.thy ===== *)
theory Message_Reconciliation
  imports Agent_Platform
begin

text \<open>
  The handler of \<^verbatim>\<open>ms.MessagingEventNotification\<close>
  (\<^verbatim>\<open>src/examples/agent.js\<close>, lines 87--119). A first pass over
  \<^verbatim>\<open>body.changes\<close> fills the object \<^verbatim>\<open>respond\<close>: for a change of a registered
  conversation (\<^verbatim>\<open>openConvs[c.dialogId]\<close>), a content event not by this agent is
  stored under the key \<^verbatim>\<open>`${body.dialogId}-${c.sequence}`\<close>, and an accept-status
  event by this agent deletes the key of every sequence number it lists. A second pass
  over \<^verbatim>\<open>Object.keys(respond)\<close> publishes one \<^verbatim>\<open>READ\<close> acknowledgement per entry and
  calls the reply function on it. The reply function is a parameter of the agent: every
  lemma here holds for any reply function.
\<close>

datatype ms_event =
    ContentEvent js_value \<comment> \<open>\<^verbatim>\<open>event.message\<close>\<close>
  | AcceptStatusEvent string "nat list" \<comment> \<open>\<^verbatim>\<open>event.status\<close>, \<^verbatim>\<open>event.sequenceList\<close>\<close>
  | OtherEvent string \<comment> \<open>any other \<^verbatim>\<open>event.type\<close>\<close>

record msg_change =
  mc_dialog_id :: conv_id
  mc_sequence :: nat
  mc_event :: ms_event
  mc_is_me :: bool \<comment> \<open>\<^verbatim>\<open>c.isMe()\<close>\<close>

record messaging_notification =
  mn_dialog_id :: conv_id
  mn_changes :: "msg_change list"

type_synonym respond_obj = "(string \<times> content_event) list"

text \<open>The key \<^verbatim>\<open>`${body.dialogId}-${sequence}`\<close>.\<close>

definition respond_key :: "conv_id \<Rightarrow> nat \<Rightarrow> string" where
  "respond_key d n = d @ ''-'' @ dec_string n"

text \<open>\<^verbatim>\<open>c.event.sequenceList.forEach(seq => delete respond[...])\<close>.\<close>

fun delete_read :: "conv_id \<Rightarrow> nat list \<Rightarrow> respond_obj \<Rightarrow> respond_obj" where
  "delete_read d [] r = r"
| "delete_read d (n # ns) r = delete_read d ns (obj_delete (respond_key d n) r)"

text \<open>One iteration of the first \<^verbatim>\<open>forEach\<close>; \<open>oc\<close> is \<^verbatim>\<open>openConvs\<close>,
  \<open>bd\<close> is \<^verbatim>\<open>body.dialogId\<close>.\<close>

definition respond_step :: "unit js_dict \<Rightarrow> conv_id \<Rightarrow> respond_obj \<Rightarrow> msg_change \<Rightarrow> respond_obj" where
  "respond_step oc bd r c =
     (if js_has oc (mc_dialog_id c) then
        (let r1 = (case mc_event c of
                     ContentEvent m \<Rightarrow>
                       if \<not> mc_is_me c then
                         obj_set (respond_key bd (mc_sequence c))
                           \<lparr>ce_dialog_id = bd, ce_sequence = mc_sequence c, ce_message = m\<rparr> r
                       else r
                   | _ \<Rightarrow> r)
         in case mc_event c of
              AcceptStatusEvent st ns \<Rightarrow> if mc_is_me c then delete_read bd ns r1 else r1
            | _ \<Rightarrow> r1)
      else r)"

fun collect_respond :: "unit js_dict \<Rightarrow> conv_id \<Rightarrow> respond_obj \<Rightarrow> msg_change list \<Rightarrow> respond_obj" where
  "collect_respond oc bd r [] = r"
| "collect_respond oc bd r (c # cs) = collect_respond oc bd (respond_step oc bd r c) cs"

text \<open>
  The second \<^verbatim>\<open>forEach\<close>, over the values of \<^verbatim>\<open>respond\<close> in key order:
  acknowledge, then reply. An exception of the reply function ends the loop; the
  acknowledgement of that entry has already been published.
\<close>

definition read_ack :: "content_event \<Rightarrow> request" where
  "read_ack ce = PublishEvent (ce_dialog_id ce) (PubAcceptStatusEvent ''READ'' [ce_sequence ce])"

fun ack_and_reply :: "reply_function \<Rightarrow> content_event list \<Rightarrow> request list \<times> js_error option" where
  "ack_and_reply reply [] = ([], None)"
| "ack_and_reply reply (ce # ces) =
     (case reply ce of
        (rs, Some e) \<Rightarrow> (read_ack ce # rs, Some e)
      | (rs, None) \<Rightarrow>
          (case ack_and_reply reply ces of (rs', e') \<Rightarrow> (read_ack ce # rs @ rs', e')))"

definition respond_requests :: "reply_function \<Rightarrow> respond_obj \<Rightarrow> request list \<times> js_error option" where
  "respond_requests reply r = ack_and_reply reply (map snd r)"

definition on_messaging_event :: "agent \<Rightarrow> messaging_notification \<Rightarrow> agent \<times> js_error option" where
  "on_messaging_event s b =
     (case respond_requests (reply_fn s)
             (collect_respond (open_convs s) (mn_dialog_id b) [] (mn_changes b)) of
        (rs, e) \<Rightarrow> (emit s rs, e))"

section \<open>Abstract specification: the pending-reply set\<close>

text \<open>
  Spec section 3 and 4.4: pending replies keyed by (conversation id, sequence number),
  where the conversation id is the change record's own.
\<close>

type_synonym pending_map = "conv_id \<times> nat \<rightharpoonup> content_event"

definition pending_step :: "unit js_dict \<Rightarrow> pending_map \<Rightarrow> msg_change \<Rightarrow> pending_map" where
  "pending_step oc P c =
     (let d = mc_dialog_id c in
      if js_has oc d then
        (case mc_event c of
           ContentEvent m \<Rightarrow>
             if \<not> mc_is_me c
             then P((d, mc_sequence c) \<mapsto> \<lparr>ce_dialog_id = d, ce_sequence = mc_sequence c, ce_message = m\<rparr>)
             else P
         | AcceptStatusEvent st ns \<Rightarrow>
             if mc_is_me c then (\<lambda>(d', n). if d' = d \<and> n \<in> set ns then None else P (d', n)) else P
         | OtherEvent t \<Rightarrow> P)
      else P)"

definition pending_spec :: "unit js_dict \<Rightarrow> msg_change list \<Rightarrow> pending_map" where
  "pending_spec oc cs = fold (\<lambda>c P. pending_step oc P c) cs Map.empty"

text \<open>The abstraction of \<^verbatim>\<open>respond\<close> for the batch of dialog \<open>bd\<close>.\<close>

definition abs_respond :: "conv_id \<Rightarrow> respond_obj \<Rightarrow> pending_map" where
  "abs_respond bd r = (\<lambda>(d, n). if d = bd then map_of r (respond_key bd n) else None)"

text \<open>Declarative reading of the pass (spec, I2 and the rationale of 4.4).\<close>

definition inserts :: "unit js_dict \<Rightarrow> nat \<Rightarrow> msg_change \<Rightarrow> bool" where
  "inserts oc n c \<longleftrightarrow> js_has oc (mc_dialog_id c) \<and> \<not> mc_is_me c \<and> mc_sequence c = n \<and>
     (\<exists>m. mc_event c = ContentEvent m)"

definition acks :: "unit js_dict \<Rightarrow> nat \<Rightarrow> msg_change \<Rightarrow> bool" where
  "acks oc n c \<longleftrightarrow> js_has oc (mc_dialog_id c) \<and> mc_is_me c \<and>
     (\<exists>st ns. mc_event c = AcceptStatusEvent st ns \<and> n \<in> set ns)"

text \<open>Sequence number \<open>n\<close> survives the batch when some change inserts it and no
  later change acknowledges it.\<close>

fun survives :: "unit js_dict \<Rightarrow> msg_change list \<Rightarrow> nat \<Rightarrow> bool" where
  "survives oc [] n = False"
| "survives oc (c # cs) n = ((inserts oc n c \<and> \<not> list_ex (acks oc n) cs) \<or> survives oc cs n)"

text \<open>A consumer content event of a conversation the registry answers for.\<close>

definition fresh_consumer_msg :: "unit js_dict \<Rightarrow> msg_change \<Rightarrow> bool" where
  "fresh_consumer_msg oc c \<longleftrightarrow>
     js_has oc (mc_dialog_id c) \<and> \<not> mc_is_me c \<and> (\<exists>m. mc_event c = ContentEvent (JsString m))"

text \<open>The \<^verbatim>\<open>event.message\<close> of a content event, and its text when it is a string.\<close>

definition msg_value :: "msg_change \<Rightarrow> js_value" where
  "msg_value c = (case mc_event c of ContentEvent m \<Rightarrow> m | _ \<Rightarrow> JsNonString)"

definition msg_text :: "msg_change \<Rightarrow> string" where
  "msg_text c = (case msg_value c of JsString m \<Rightarrow> m | JsNonString \<Rightarrow> [])"

text \<open>A change that is not a content event with a non-string message.\<close>

definition text_or_other :: "msg_change \<Rightarrow> bool" where
  "text_or_other c \<longleftrightarrow> mc_event c \<noteq> ContentEvent JsNonString"

text \<open>Keys are distinct and every entry sits under the key of its own sequence number
  in the batch's dialog.\<close>

definition respond_inv :: "conv_id \<Rightarrow> respond_obj \<Rightarrow> bool" where
  "respond_inv bd r \<longleftrightarrow> distinct (map fst r) \<and>
     (\<forall>(k, ce) \<in> set r. k = respond_key bd (ce_sequence ce) \<and> ce_dialog_id ce = bd)"

text \<open>
  The iteration order the spec recommends (section 4.4, step 5): the pending-reply set in
  insertion order, as a queue of sequence numbers. Inserting a number already pending
  changes nothing; an own accept-status event removes the listed numbers.
\<close>

definition queue_step :: "unit js_dict \<Rightarrow> nat list \<Rightarrow> msg_change \<Rightarrow> nat list" where
  "queue_step oc q c =
     (if \<not> js_has oc (mc_dialog_id c) then q
      else case mc_event c of
        ContentEvent m \<Rightarrow> if mc_is_me c \<or> mc_sequence c \<in> set q then q else q @ [mc_sequence c]
      | AcceptStatusEvent st ns \<Rightarrow> if mc_is_me c then [n \<leftarrow> q. n \<notin> set ns] else q
      | OtherEvent t \<Rightarrow> q)"

definition reply_queue :: "unit js_dict \<Rightarrow> msg_change list \<Rightarrow> nat list" where
  "reply_queue oc cs = foldl (queue_step oc) [] cs"

text \<open>The sequence numbers of \<^verbatim>\<open>respond\<close> in \<^verbatim>\<open>Object.keys\<close> order.\<close>

definition respond_seqs :: "respond_obj \<Rightarrow> nat list" where
  "respond_seqs r = map (ce_sequence \<circ> snd) r"

section \<open>Lemmas\<close>

subsection \<open>Keys\<close>

lemma respond_key_inj [agent_simps]: "respond_key d a = respond_key d b \<longleftrightarrow> a = b"
  by (auto simp: respond_key_def dest: dec_string_inj)

lemma respond_key_in_image [agent_simps]: "respond_key d n \<in> respond_key d ` A \<longleftrightarrow> n \<in> A"
  by (auto simp: respond_key_inj)

subsection \<open>The deletion loop\<close>

lemma map_of_delete_read [agent_simps]:
  "map_of (delete_read d ns r) = (\<lambda>k. if k \<in> respond_key d ` set ns then None else map_of r k)"
  by (induction ns arbitrary: r) (auto simp: map_of_obj_delete fun_eq_iff)

lemma distinct_delete_read [agent_simps]:
  "distinct (map fst r) \<Longrightarrow> distinct (map fst (delete_read d ns r))"
  by (induction ns arbitrary: r) (auto simp: distinct_obj_delete)

lemma set_delete_read: "set (delete_read d ns r) \<subseteq> set r"
proof (induction ns arbitrary: r)
  case Nil
  then show ?case by simp
next
  case (Cons n ns)
  with Cons.IH [of "obj_delete (respond_key d n) r"] show ?case
    by (simp add: obj_delete_filter) blast
qed

subsection \<open>Invariant of \<^verbatim>\<open>respond\<close>\<close>

lemma respond_inv_step:
  "respond_inv bd r \<Longrightarrow> respond_inv bd (respond_step oc bd r c)"
proof -
  assume inv: "respond_inv bd r"
  have del: "respond_inv bd (delete_read bd ns r')" if "respond_inv bd r'" for ns r'
    using that set_delete_read [of bd ns r'] distinct_delete_read [of r' bd ns]
    by (auto simp: respond_inv_def)
  have ins: "respond_inv bd (obj_set (respond_key bd n)
               \<lparr>ce_dialog_id = bd, ce_sequence = n, ce_message = m\<rparr> r)" for n m
    using inv set_obj_set [of "respond_key bd n" _ r] distinct_obj_set [of r]
    by (fastforce simp: respond_inv_def)
  show ?thesis
    using inv del ins
    by (auto simp: respond_step_def Let_def split: ms_event.splits)
qed

lemma respond_inv_collect:
  "respond_inv bd r \<Longrightarrow> respond_inv bd (collect_respond oc bd r cs)"
  by (induction cs arbitrary: r) (simp_all add: respond_inv_step)

lemma respond_inv_Nil [simp]: "respond_inv bd []"
  by (simp add: respond_inv_def)

subsection \<open>Refinement of the pending-reply map\<close>

lemma abs_respond_step:
  assumes "mc_dialog_id c = bd"
  shows "abs_respond bd (respond_step oc bd r c) = pending_step oc (abs_respond bd r) c"
  using assms
  by (auto simp: abs_respond_def respond_step_def pending_step_def Let_def fun_eq_iff
                 map_of_obj_set map_of_delete_read respond_key_in_image respond_key_inj
           split: ms_event.splits)

lemma abs_respond_collect:
  "\<forall>c \<in> set cs. mc_dialog_id c = bd \<Longrightarrow>
     abs_respond bd (collect_respond oc bd r cs) = fold (\<lambda>c P. pending_step oc P c) cs (abs_respond bd r)"
  by (induction cs arbitrary: r) (simp_all add: abs_respond_step)

lemma abs_respond_Nil [simp]: "abs_respond bd [] = Map.empty"
  by (simp add: abs_respond_def fun_eq_iff)

subsection \<open>Which entries survive the first pass\<close>

lemma collect_respond_append:
  "collect_respond oc bd r (xs @ ys) = collect_respond oc bd (collect_respond oc bd r xs) ys"
  by (induction xs arbitrary: r) simp_all

lemma respond_step_key:
  "map_of (respond_step oc bd r c) (respond_key bd n) \<noteq> None \<longleftrightarrow>
     inserts oc n c \<or> (map_of r (respond_key bd n) \<noteq> None \<and> \<not> acks oc n c)"
  by (auto simp: respond_step_def inserts_def acks_def Let_def map_of_obj_set map_of_delete_read
                 respond_key_in_image respond_key_inj split: ms_event.splits)

lemma inserts_not_acks: "inserts oc n c \<Longrightarrow> \<not> acks oc n c"
  by (auto simp: inserts_def acks_def)

lemma survives_snoc:
  "survives oc (cs @ [c]) n \<longleftrightarrow> inserts oc n c \<or> (survives oc cs n \<and> \<not> acks oc n c)"
  by (induction cs) auto

lemma collect_respond_key:
  "map_of (collect_respond oc bd [] cs) (respond_key bd n) \<noteq> None \<longleftrightarrow> survives oc cs n"
proof (induction cs rule: rev_induct)
  case Nil
  then show ?case by simp
next
  case (snoc c cs)
  have "map_of (collect_respond oc bd [] (cs @ [c])) (respond_key bd n) =
        map_of (respond_step oc bd (collect_respond oc bd [] cs) c) (respond_key bd n)"
    by (simp add: collect_respond_append)
  with snoc.IH respond_step_key [of oc bd "collect_respond oc bd [] cs" c n] show ?case
    by (simp only: survives_snoc)
qed

text \<open>The entries of \<^verbatim>\<open>respond\<close> after the first pass: one per surviving
  sequence number, all in the batch's dialog.\<close>

lemma collect_respond_entries:
  assumes "r = collect_respond oc bd [] cs"
  shows "distinct (map (ce_sequence \<circ> snd) r)"
    and "ce_sequence ` snd ` set r = {n. survives oc cs n}"
    and "ce_dialog_id ` snd ` set r \<subseteq> {bd}"
proof -
  have inv: "respond_inv bd r"
    using assms respond_inv_collect [of bd "[]" oc cs] by simp
  then have keys: "map fst r = map (respond_key bd) (map (ce_sequence \<circ> snd) r)"
    unfolding respond_inv_def by (induction r) auto
  from inv have "distinct (map fst r)" by (simp add: respond_inv_def)
  then have "distinct (map (respond_key bd) (map (ce_sequence \<circ> snd) r))"
    by (simp only: keys)
  then show "distinct (map (ce_sequence \<circ> snd) r)"
    by (rule distinct_map [THEN iffD1, THEN conjunct1])
  show "ce_sequence ` snd ` set r = {n. survives oc cs n}"
  proof (rule set_eqI)
    fix n
    have "survives oc cs n \<longleftrightarrow> respond_key bd n \<in> fst ` set r"
      using collect_respond_key [of oc bd cs n] assms by (simp add: map_of_eq_None_iff)
    also have "\<dots> \<longleftrightarrow> n \<in> ce_sequence ` snd ` set r"
      using inv by (force simp: respond_inv_def respond_key_inj)
    finally show "n \<in> ce_sequence ` snd ` set r \<longleftrightarrow> n \<in> {n. survives oc cs n}" by simp
  qed
  show "ce_dialog_id ` snd ` set r \<subseteq> {bd}"
    using inv by (auto simp: respond_inv_def)
qed

subsection \<open>The second loop\<close>

lemma ack_and_reply_no_throw:
  "list_all (\<lambda>ce. snd (reply ce) = None) ces \<Longrightarrow>
     ack_and_reply reply ces = (concat (map (\<lambda>ce. read_ack ce # fst (reply ce)) ces), None)"
  by (induction ces) (auto split: prod.splits option.splits)

lemma ack_and_reply_throw:
  assumes "list_all (\<lambda>ce. snd (reply ce) = None) xs" and "reply ce = (rs, Some e)"
  shows "ack_and_reply reply (xs @ ce # ys) =
           (concat (map (\<lambda>ce. read_ack ce # fst (reply ce)) xs) @ read_ack ce # rs, Some e)"
  using assms by (induction xs) (auto split: prod.splits option.splits)

lemma ack_and_reply_single:
  "ack_and_reply reply [ce] = (read_ack ce # fst (reply ce), snd (reply ce))"
  by (cases "reply ce") (simp split: option.splits)

lemma fresh_consumer_text: "fresh_consumer_msg oc c \<Longrightarrow> text_or_other c"
  by (auto simp: fresh_consumer_msg_def text_or_other_def)

text \<open>A property of every request the reply function and the acknowledgements issue.\<close>

lemma ack_and_reply_all:
  assumes "\<forall>ce. list_all P (fst (reply ce))" and "\<forall>ce. P (read_ack ce)"
  shows "list_all P (fst (ack_and_reply reply ces))"
proof (induction ces)
  case (Cons ce ces)
  from assms have "list_all P (fst (reply ce))" and "P (read_ack ce)" by blast+
  with Cons show ?case by (cases "reply ce") (auto split: option.splits prod.splits)
qed simp

lemma on_messaging_event_split:
  "on_messaging_event s b =
     (emit s (fst (ack_and_reply (reply_fn s)
                    (map snd (collect_respond (open_convs s) (mn_dialog_id b) [] (mn_changes b))))),
      snd (ack_and_reply (reply_fn s)
                    (map snd (collect_respond (open_convs s) (mn_dialog_id b) [] (mn_changes b)))))"
  by (simp add: on_messaging_event_def respond_requests_def split: prod.splits)

lemma collect_respond_unregistered:
  "list_all (\<lambda>c. \<not> js_has oc (mc_dialog_id c)) cs \<Longrightarrow> collect_respond oc bd r cs = r"
  by (induction cs arbitrary: r) (simp_all add: respond_step_def)

subsection \<open>Sizes\<close>

lemma delete_read_filter:
  "delete_read d ns r = filter (\<lambda>(k, ce). k \<notin> respond_key d ` set ns) r"
  by (induction ns arbitrary: r) (auto simp: obj_delete_filter intro: filter_cong)

lemma length_respond_step: "length (respond_step oc bd r c) \<le> Suc (length r)"
proof -
  have "length (delete_read bd ns r') \<le> Suc (length r')" for ns r'
    by (simp add: delete_read_filter le_SucI)
  then show ?thesis
    using length_obj_set [of _ _ r]
    by (auto simp: respond_step_def Let_def split: ms_event.splits intro: le_trans)
qed

lemma length_collect_respond: "length (collect_respond oc bd r cs) \<le> length r + length cs"
proof (induction cs arbitrary: r)
  case (Cons c cs)
  from Cons.IH [of "respond_step oc bd r c"] length_respond_step [of oc bd r c]
  show ?case by simp
qed simp

lemma length_ack_and_reply:
  assumes "\<forall>ce \<in> set ces. length (fst (reply ce)) \<le> k"
  shows "length (fst (ack_and_reply reply ces)) \<le> Suc k * length ces"
  using assms
proof (induction ces)
  case (Cons ce ces)
  then show ?case by (auto split: prod.splits option.splits)
qed simp

text \<open>Every stored message is the message of a content event of the batch.\<close>

lemma respond_step_entry:
  "(k, ce) \<in> set (respond_step oc bd r c) \<Longrightarrow>
     (k, ce) \<in> set r \<or> mc_event c = ContentEvent (ce_message ce)"
  by (auto simp: respond_step_def Let_def split: if_splits ms_event.splits
           dest: set_obj_set [THEN subsetD] set_delete_read [THEN subsetD])

lemma collect_respond_entry:
  "(k, ce) \<in> set (collect_respond oc bd r cs) \<Longrightarrow>
     (k, ce) \<in> set r \<or> (\<exists>c \<in> set cs. mc_event c = ContentEvent (ce_message ce))"
  by (induction cs arbitrary: r) (fastforce dest: respond_step_entry)+

lemma collect_respond_text:
  assumes "list_all text_or_other cs" and "ce \<in> set (map snd (collect_respond oc bd [] cs))"
  shows "\<exists>m. ce_message ce = JsString m"
proof -
  from assms(2) obtain k where "(k, ce) \<in> set (collect_respond oc bd [] cs)" by auto
  from collect_respond_entry [OF this] obtain c where
    "c \<in> set cs" and "mc_event c = ContentEvent (ce_message ce)" by auto
  with assms(1) show ?thesis
    by (cases "ce_message ce") (auto simp: text_or_other_def list_all_iff)
qed

subsection \<open>Order of the second loop\<close>

text \<open>Consumer messages with distinct sequence numbers are listed in arrival order.\<close>

text \<open>
  A batch of fresh consumer messages with distinct sequence numbers fills
  \<^verbatim>\<open>respond\<close> with one entry per message, in arrival order.
\<close>

lemma collect_respond_fresh:
  assumes "list_all (fresh_consumer_msg oc) cs" and "distinct (map mc_sequence cs)"
  shows "collect_respond oc bd [] cs =
           map (\<lambda>c. (respond_key bd (mc_sequence c),
                      \<lparr>ce_dialog_id = bd, ce_sequence = mc_sequence c, ce_message = msg_value c\<rparr>)) cs"
  using assms
proof (induction cs rule: rev_induct)
  case Nil
  then show ?case by simp
next
  case (snoc c cs)
  let ?r = "collect_respond oc bd [] cs"
  from snoc.prems have IH: "?r = map (\<lambda>c. (respond_key bd (mc_sequence c),
        \<lparr>ce_dialog_id = bd, ce_sequence = mc_sequence c, ce_message = msg_value c\<rparr>)) cs"
    by (intro snoc.IH) simp_all
  from snoc.prems obtain m where c: "js_has oc (mc_dialog_id c)" "\<not> mc_is_me c"
      "mc_event c = ContentEvent (JsString m)"
    by (auto simp: fresh_consumer_msg_def)
  from snoc.prems have "mc_sequence c \<notin> set (map mc_sequence cs)" by simp
  then have "respond_key bd (mc_sequence c) \<notin> fst ` set ?r"
    by (auto simp: IH respond_key_inj)
  then have "respond_step oc bd ?r c =
               ?r @ [(respond_key bd (mc_sequence c),
                      \<lparr>ce_dialog_id = bd, ce_sequence = mc_sequence c, ce_message = JsString m\<rparr>)]"
    using c by (simp add: respond_step_def obj_set_new)
  with IH c show ?case by (simp add: collect_respond_append msg_value_def)
qed

lemma collect_respond_arrival_order:
  assumes "list_all (fresh_consumer_msg oc) cs" and "distinct (map mc_sequence cs)"
  shows "map (ce_sequence \<circ> snd) (collect_respond oc bd [] cs) = map mc_sequence cs"
  by (simp add: collect_respond_fresh [OF assms] comp_def)

subsection \<open>Iteration order against the insertion-ordered queue\<close>

lemma delete_read_keyed:
  assumes "\<forall>(k, ce) \<in> set r. k = respond_key bd (ce_sequence ce)"
  shows "delete_read bd ns r = filter (\<lambda>(k, ce). ce_sequence ce \<notin> set ns) r"
proof -
  have "k \<in> respond_key bd ` set ns \<longleftrightarrow> ce_sequence ce \<in> set ns" if "(k, ce) \<in> set r" for k ce
  proof -
    from that assms have "k = respond_key bd (ce_sequence ce)" by auto
    then show ?thesis by (simp add: respond_key_in_image)
  qed
  then show ?thesis
    by (auto simp: delete_read_filter intro!: filter_cong)
qed

lemma respond_seqs_obj_set:
  assumes "\<forall>(k, e) \<in> set r. k = respond_key bd (ce_sequence e)" and "ce_sequence ce = n"
  shows "respond_seqs (obj_set (respond_key bd n) ce r) =
           (if n \<in> set (respond_seqs r) then respond_seqs r else respond_seqs r @ [n])"
  using assms
proof (induction r)
  case (Cons p r)
  obtain k e where p: "p = (k, e)" by fastforce
  with Cons.prems have k: "k = respond_key bd (ce_sequence e)" by simp
  show ?case
  proof (cases "ce_sequence e = n")
    case True
    with p k Cons.prems show ?thesis by (simp add: respond_seqs_def)
  next
    case False
    with p k Cons.prems Cons.IH show ?thesis by (simp add: respond_seqs_def respond_key_inj)
  qed
qed (simp add: respond_seqs_def)

lemma respond_seqs_delete_read:
  assumes "\<forall>(k, e) \<in> set r. k = respond_key bd (ce_sequence e)"
  shows "respond_seqs (delete_read bd ns r) = [n \<leftarrow> respond_seqs r. n \<notin> set ns]"
proof -
  have "respond_seqs (filter (\<lambda>(k, ce). ce_sequence ce \<notin> set ns) r') = [n \<leftarrow> respond_seqs r'. n \<notin> set ns]"
    for r' by (induction r') (auto simp: respond_seqs_def)
  with assms show ?thesis by (simp add: delete_read_keyed)
qed

lemma respond_seqs_step:
  assumes "respond_inv bd r"
  shows "respond_seqs (respond_step oc bd r c) = queue_step oc (respond_seqs r) c"
proof -
  have key: "\<forall>(k, e) \<in> set r. k = respond_key bd (ce_sequence e)"
    using assms by (auto simp: respond_inv_def)
  show ?thesis
  proof (cases "js_has oc (mc_dialog_id c)")
    case True
    show ?thesis
    proof (cases "mc_event c")
      case (ContentEvent m)
      with True show ?thesis
        using respond_seqs_obj_set [OF key,
            of "\<lparr>ce_dialog_id = bd, ce_sequence = mc_sequence c, ce_message = m\<rparr>" "mc_sequence c"]
        by (simp add: respond_step_def queue_step_def)
    next
      case (AcceptStatusEvent st ns)
      with True show ?thesis
        using respond_seqs_delete_read [OF key, of ns] by (simp add: respond_step_def queue_step_def)
    next
      case (OtherEvent t)
      with True show ?thesis by (simp add: respond_step_def queue_step_def)
    qed
  qed (simp add: respond_step_def queue_step_def)
qed

lemma respond_seqs_collect:
  "respond_inv bd r \<Longrightarrow>
     respond_seqs (collect_respond oc bd r cs) = foldl (queue_step oc) (respond_seqs r) cs"
proof (induction cs arbitrary: r)
  case (Cons c cs)
  from Cons.IH [OF respond_inv_step [OF Cons.prems]] respond_seqs_step [OF Cons.prems]
  show ?case by simp
qed simp

end
