(* ===== verification/Reply_Policy.thy ===== *)
theory Reply_Policy
  imports Agent_Platform
begin

text \<open>
  The reply function that \<^verbatim>\<open>src/examples/agent.js\<close> passes to the constructor
  (lines 134--150): a consumer message starting with \<^verbatim>\<open>#close\<close> closes the
  conversation through \<^verbatim>\<open>updateConversationField\<close>; any other message is echoed
  back with the prefix \<^verbatim>\<open>echo : \<close>. A message that is not a string has no
  \<^verbatim>\<open>startsWith\<close> method: the call on line 135 throws a \<^verbatim>\<open>TypeError\<close> before
  any request is issued.
\<close>

definition example_reply :: reply_function where
  "example_reply ce =
     (case ce_message ce of
        JsString m \<Rightarrow>
          (if starts_with m ''#close'' then
             [UpdateConversationField (ce_dialog_id ce) [ConversationStateField ''CLOSE'']]
           else
             [PublishEvent (ce_dialog_id ce)
                (PubContentEvent ''text/plain'' (''echo : '' @ m))], None)
      | JsNonString \<Rightarrow> ([], Some (TypeError ''contentEvent.message.startsWith is not a function'')))"

text \<open>The example agent of lines 129--150, before it connects.\<close>

definition example_agent :: agent where
  "example_agent = new_agent example_reply"

text \<open>
  The policy the example's comments state (lines 85 and 133, spec section 4.5): a
  message whose first six characters are \<^verbatim>\<open>#close\<close> closes its conversation, any
  other message is echoed to it with the prefix \<^verbatim>\<open>echo : \<close>.
\<close>

definition close_or_echo :: "conv_id \<Rightarrow> string \<Rightarrow> request" where
  "close_or_echo d m =
     (if take 6 m = ''#close'' then UpdateConversationField d [ConversationStateField ''CLOSE'']
      else PublishEvent d (PubContentEvent ''text/plain'' (''echo : '' @ m)))"

text \<open>Requests that acknowledge messages: an accept-status event.\<close>

fun is_status_publish :: "request \<Rightarrow> bool" where
  "is_status_publish (PublishEvent d (PubAcceptStatusEvent st ns)) = True"
| "is_status_publish _ = False"

lemma starts_with_append [agent_simps]: "starts_with (p @ s) p"
  by (induction p) simp_all

lemma example_reply_text [agent_simps]:
  "ce_message ce = JsString m \<Longrightarrow>
     snd (example_reply ce) = None \<and> length (fst (example_reply ce)) = 1"
  by (simp add: example_reply_def)

lemma example_reply_no_status [agent_simps]:
  "filter is_status_publish (fst (example_reply ce)) = []"
  by (simp add: example_reply_def split: js_value.splits)

lemma example_reply_action:
  "ce_message ce = JsString m \<Longrightarrow> example_reply ce = ([close_or_echo (ce_dialog_id ce) m], None)"
  by (simp add: example_reply_def close_or_echo_def starts_with_take eval_nat_numeral)

end
