(* ===== verification/Agent_Loop.thy ===== *)
theory Agent_Loop
  imports Ring_Acceptance Conversation_Lifecycle Message_Reconciliation Reply_Policy
begin

text \<open>
  The agent as a whole (\<^verbatim>\<open>src/examples/agent.js\<close>, lines 19--126): the
  \<^verbatim>\<open>connected\<close> handler, the completion callback of \<^verbatim>\<open>getUserProfile\<close>, the
  dispatch of each notification to its handler (\<^verbatim>\<open>this.on(name, handler)\<close>), a
  deterministic run over a list of notifications, and the event loop as a step relation
  in which a profile lookup may complete at any later turn. A handler that throws does
  not stop the agent: the next notification is handled from the state the throw left.
\<close>

text \<open>Lines 30--37.\<close>

definition on_connected :: "agent \<Rightarrow> agent" where
  "on_connected s =
     emit s [SetAgentState ''ONLINE'', SubscribeExConversations [''OPEN''], SubscribeRoutingTasks]"

text \<open>
  Lines 67--76: the callback of \<^verbatim>\<open>getUserProfile\<close> publishes the greeting with
  \<^verbatim>\<open>JSON.stringify(profileResp)\<close>; \<open>None\<close> is a failed lookup, whose
  \<^verbatim>\<open>profileResp\<close> is \<^verbatim>\<open>undefined\<close> and prints as \<^verbatim>\<open>undefined\<close>. The callback
  does not look at \<^verbatim>\<open>openConvs\<close>.
\<close>

definition greeting :: "string option \<Rightarrow> string" where
  "greeting resp =
     ''Just joined to conversation with '' @ (case resp of None \<Rightarrow> ''undefined'' | Some j \<Rightarrow> j)"

definition on_user_profile :: "agent \<Rightarrow> string \<Rightarrow> conv_id \<Rightarrow> string option \<Rightarrow> agent" where
  "on_user_profile s uid cid resp =
     emit (s\<lparr>pending_profiles := remove1 (uid, cid) (pending_profiles s)\<rparr>)
       [PublishEvent cid (PubContentEvent ''text/plain'' (greeting resp))]"

datatype notification =
    Connected
  | RoutingTaskNotification "routing_change list"
  | ExConversationChangeNotification "conv_change list"
  | MessagingEventNotification messaging_notification
  | UserProfileResponse string conv_id "string option"

text \<open>A profile response is only delivered for a lookup still waiting for it.\<close>

definition enabled :: "agent \<Rightarrow> notification \<Rightarrow> bool" where
  "enabled s n =
     (case n of UserProfileResponse uid cid resp \<Rightarrow> (uid, cid) \<in> set (pending_profiles s) | _ \<Rightarrow> True)"

definition handle :: "agent \<Rightarrow> notification \<Rightarrow> agent \<times> js_error option" where
  "handle s n =
     (case n of
        Connected \<Rightarrow> (on_connected s, None)
      | RoutingTaskNotification cs \<Rightarrow> (on_routing_task_notification s cs, None)
      | ExConversationChangeNotification cs \<Rightarrow> on_conv_changes s cs
      | MessagingEventNotification b \<Rightarrow> on_messaging_event s b
      | UserProfileResponse uid cid resp \<Rightarrow>
          (if (uid, cid) \<in> set (pending_profiles s) then on_user_profile s uid cid resp else s, None))"

fun run :: "agent \<Rightarrow> notification list \<Rightarrow> agent \<times> js_error list" where
  "run s [] = (s, [])"
| "run s (n # ns) =
     (case handle s n of
        (s', e) \<Rightarrow> (case run s' ns of (s'', es) \<Rightarrow> (s'', (case e of None \<Rightarrow> [] | Some x \<Rightarrow> [x]) @ es)))"

inductive agent_step :: "agent \<Rightarrow> agent \<Rightarrow> bool" where
  deliver: "enabled s n \<Longrightarrow> agent_step s (fst (handle s n))"

inductive reachable :: "reply_function \<Rightarrow> agent \<Rightarrow> bool" for reply where
  init: "reachable reply (new_agent reply)"
| step: "reachable reply s \<Longrightarrow> agent_step s t \<Longrightarrow> reachable reply t"

inductive_cases agent_stepE: "agent_step s t"

text \<open>The conversation changes a run of notifications carries, in order.\<close>

fun conv_changes_of :: "notification list \<Rightarrow> conv_change list" where
  "conv_changes_of [] = []"
| "conv_changes_of (ExConversationChangeNotification cs # ns) = cs @ conv_changes_of ns"
| "conv_changes_of (n # ns) = conv_changes_of ns"

text \<open>The same, batch by batch.\<close>

fun conv_batches :: "notification list \<Rightarrow> conv_change list list" where
  "conv_batches [] = []"
| "conv_batches (ExConversationChangeNotification cs # ns) = cs # conv_batches ns"
| "conv_batches (n # ns) = conv_batches ns"

fun is_conv_notification :: "notification \<Rightarrow> bool" where
  "is_conv_notification (ExConversationChangeNotification cs) = True"
| "is_conv_notification _ = False"

definition agent_inv :: "reply_function \<Rightarrow> agent \<Rightarrow> bool" where
  "agent_inv reply s \<longleftrightarrow> registry_wf s \<and> lookups_issued s \<and> reply_fn s = reply"

section \<open>Lemmas\<close>

lemmas handler_defs = handle_def on_connected_def on_routing_task_notification_def
  on_messaging_event_split on_user_profile_def

lemma handle_registry_frame:
  "\<not> is_conv_notification n \<Longrightarrow> open_convs (fst (handle s n)) = open_convs s"
  by (cases n) (simp_all add: handler_defs)

lemma handle_frame:
  "reply_fn (fst (handle s n)) = reply_fn s \<and> (\<exists>rs. outbox (fst (handle s n)) = outbox s @ rs)"
proof (cases n)
  case (ExConversationChangeNotification cs)
  then show ?thesis using on_conv_changes_frame [of s cs] by (simp add: handle_def)
qed (auto simp: handler_defs)

lemma lookups_issued_mono:
  assumes "lookups_issued s" and "set (pending_profiles t) \<subseteq> set (pending_profiles s)"
    and "set (outbox s) \<subseteq> set (outbox t)"
  shows "lookups_issued t"
  using assms by (fastforce simp: lookups_issued_def)

lemma handle_lookups_issued:
  assumes "lookups_issued s"
  shows "lookups_issued (fst (handle s n))"
proof (cases n)
  case (ExConversationChangeNotification cs)
  with assms show ?thesis using on_conv_changes_frame [of s cs] by (simp add: handle_def)
next
  case (UserProfileResponse uid cid resp)
  show ?thesis
  proof (rule lookups_issued_mono [OF assms])
    show "set (pending_profiles (fst (handle s n))) \<subseteq> set (pending_profiles s)"
      using UserProfileResponse set_remove1_subset [of "(uid, cid)" "pending_profiles s"]
      by (simp add: handler_defs)
    show "set (outbox s) \<subseteq> set (outbox (fst (handle s n)))"
      using UserProfileResponse by (auto simp: handler_defs)
  qed
qed (use assms in \<open>auto simp: handler_defs intro: lookups_issued_mono\<close>)

lemma handle_wf:
  assumes "registry_wf s"
  shows "registry_wf (fst (handle s n))"
proof (cases n)
  case (ExConversationChangeNotification cs)
  with assms show ?thesis using on_conv_changes_wf [of s cs] by (simp add: handle_def)
qed (use assms in \<open>simp_all add: registry_wf_def handle_registry_frame\<close>)

text \<open>Spec invariant I1 over a run of notifications of every kind that throws nowhere.\<close>

lemma run_registry:
  assumes "run s ns = (s', [])" and "proto_free k"
  shows "js_has (open_convs s') k \<longleftrightarrow>
           (case last_decision k (conv_changes_of ns) of
              None \<Rightarrow> js_has (open_convs s) k | Some c \<Rightarrow> assigns c)"
  using assms(1)
proof (induction ns arbitrary: s)
  case Nil
  then show ?case by (simp add: last_decision_def)
next
  case (Cons n ns)
  obtain s1 e where h: "handle s n = (s1, e)" by fastforce
  obtain s2 es where r: "run s1 ns = (s2, es)" by fastforce
  from Cons.prems h r have e: "e = None" and s2: "s2 = s'" and es: "es = []"
    by (auto split: option.splits)
  from Cons.IH [of s1] r s2 es have IH:
    "js_has (open_convs s') k \<longleftrightarrow>
       (case last_decision k (conv_changes_of ns) of None \<Rightarrow> js_has (open_convs s1) k | Some c \<Rightarrow> assigns c)"
    by simp
  show ?case
  proof (cases "is_conv_notification n")
    case True
    then obtain cs where n: "n = ExConversationChangeNotification cs" by (cases n) auto
    with h e have "on_conv_changes s cs = (s1, None)" by (simp add: handle_def)
    from on_conv_changes_has [OF this assms(2)] IH n show ?thesis
      by (simp add: last_decision_append split: option.splits)
  next
    case False
    then have "open_convs s1 = open_convs s"
      using handle_registry_frame [of n s] h by auto
    moreover from False have "conv_changes_of (n # ns) = conv_changes_of ns"
      by (cases n) auto
    ultimately show ?thesis using IH by (simp split: option.splits)
  qed
qed

subsection \<open>Reachable states\<close>

lemma agent_inv_init: "agent_inv reply (new_agent reply)"
  by (simp add: agent_inv_def registry_wf_def lookups_issued_def new_agent_def)

lemma agent_inv_step: "agent_step s t \<Longrightarrow> agent_inv reply s \<Longrightarrow> agent_inv reply t"
  by (erule agent_stepE) (simp add: agent_inv_def handle_wf handle_lookups_issued handle_frame)

lemma reachable_agent_inv: "reachable reply s \<Longrightarrow> agent_inv reply s"
  by (induction rule: reachable.induct) (auto intro: agent_inv_init agent_inv_step)

text \<open>
  An invariant of single deliveries, from states that keep the constructor's reply
  function, holds in every reachable state.
\<close>

lemma reachable_inv_rule [consumes 1, case_names init step]:
  assumes "reachable reply s"
    and init: "P (new_agent reply)"
    and step: "\<And>s n. reachable reply s \<Longrightarrow> reply_fn s = reply \<Longrightarrow> P s \<Longrightarrow> enabled s n \<Longrightarrow>
                 P (fst (handle s n))"
  shows "P s"
  using assms(1)
proof (induction rule: reachable.induct)
  case (step s t)
  from step.hyps(2) show ?case
  proof cases
    case (deliver n)
    have "reply_fn s = reply" using reachable_agent_inv [OF step.hyps(1)] by (simp add: agent_inv_def)
    with step.hyps(1) step.IH deliver show ?thesis by (simp add: assms(3))
  qed
qed (rule init)

lemma agent_step_outbox: "agent_step s t \<Longrightarrow> \<exists>rs. outbox t = outbox s @ rs"
  by (erule agent_stepE) (simp add: handle_frame)

subsection \<open>Counting acknowledgements under the example reply function\<close>

text \<open>A batch without non-string messages never makes the example reply function throw.\<close>

lemma example_reply_collect:
  assumes "list_all text_or_other cs"
  shows "ack_and_reply example_reply (map snd (collect_respond oc bd [] cs)) =
           (concat (map (\<lambda>ce. read_ack ce # fst (example_reply ce)) (map snd (collect_respond oc bd [] cs))), None)"
proof (rule ack_and_reply_no_throw)
  show "list_all (\<lambda>ce. snd (example_reply ce) = None) (map snd (collect_respond oc bd [] cs))"
    unfolding list_all_iff
    using collect_respond_text [OF assms] example_reply_text by blast
qed

lemma count_read_acks:
  assumes "set (map ce_dialog_id ces) \<subseteq> {d}" and "distinct (map ce_sequence ces)"
  shows "count_list (concat (map (\<lambda>ce. read_ack ce # fst (example_reply ce)) ces))
           (PublishEvent d (PubAcceptStatusEvent ''READ'' [n]))
         = (if n \<in> set (map ce_sequence ces) then 1 else 0)"
  using assms by (induction ces) (auto simp: read_ack_def example_reply_def split: js_value.splits)

lemma status_publishes_example_reply:
  "filter is_status_publish (concat (map (\<lambda>ce. read_ack ce # fst (example_reply ce)) ces)) = map read_ack ces"
  by (induction ces) (simp_all add: read_ack_def example_reply_no_status)

end
