(* ===== verification/Agent_Progress.thy ===== *)
theory Agent_Progress
  imports Agent_Loop "HOL-Library.While_Combinator"
begin

text \<open>
  Properties of the event loop that span several handlers of
  \<^verbatim>\<open>src/examples/agent.js\<close>: the per-conversation accounting of admissions (every
  profile lookup of lines 66--76 is issued together with one
  \<^verbatim>\<open>subscribeMessagingEvents\<close> of line 77, and is either still pending or has
  published its greeting), and the progress of pending lookups (the event loop can
  complete all of them, and the loop that runs the outstanding callbacks on later turns
  stops), and the shape \<open>request_wf\<close> of every request the handlers issue.
\<close>

text \<open>Requests of conversation \<open>c\<close> that the accounting counts.\<close>

fun is_lookup :: "conv_id \<Rightarrow> request \<Rightarrow> bool" where
  "is_lookup c (GetUserProfile u c') = (c' = c)"
| "is_lookup c r = False"

fun is_subscription :: "conv_id \<Rightarrow> request \<Rightarrow> bool" where
  "is_subscription c (SubscribeMessagingEvents c') = (c' = c)"
| "is_subscription c r = False"

definition greeting_prefix :: string where
  "greeting_prefix = ''Just joined to conversation with ''"

fun is_greeting :: "conv_id \<Rightarrow> request \<Rightarrow> bool" where
  "is_greeting c (PublishEvent c' (PubContentEvent t m)) = (c' = c \<and> starts_with m greeting_prefix)"
| "is_greeting c r = False"

text \<open>A request that is none of these, for any conversation.\<close>

fun quiet_request :: "request \<Rightarrow> bool" where
  "quiet_request (GetUserProfile u c) = False"
| "quiet_request (SubscribeMessagingEvents c) = False"
| "quiet_request (PublishEvent c (PubContentEvent t m)) = (\<not> starts_with m greeting_prefix)"
| "quiet_request r = True"

text \<open>
  Admissions of conversation \<open>c\<close> are balanced: as many subscriptions as lookups, and
  every lookup either has published its greeting or is still pending.
\<close>

definition admissions_balanced :: "agent \<Rightarrow> conv_id \<Rightarrow> bool" where
  "admissions_balanced s c \<longleftrightarrow>
     length (filter (is_subscription c) (outbox s)) = length (filter (is_lookup c) (outbox s)) \<and>
     length (filter (is_lookup c) (outbox s)) =
       length (filter (is_greeting c) (outbox s)) + count_list (map snd (pending_profiles s)) c"

text \<open>
  Later turns of the event loop when no notification arrives (spec section 5): the
  oldest outstanding \<^verbatim>\<open>getUserProfile\<close> callback runs with the platform's answer
  \<open>resp u c\<close>, until none is outstanding. \<open>None\<close> would be a loop that never stops.
\<close>

type_synonym profile_answers = "string \<Rightarrow> conv_id \<Rightarrow> string option"

definition deliver_next :: "profile_answers \<Rightarrow> agent \<Rightarrow> agent" where
  "deliver_next resp s =
     (case pending_profiles s of [] \<Rightarrow> s | (u, c) # _ \<Rightarrow> on_user_profile s u c (resp u c))"

definition settle :: "profile_answers \<Rightarrow> agent \<Rightarrow> agent option" where
  "settle resp s = while_option (\<lambda>s. pending_profiles s \<noteq> []) (deliver_next resp) s"

text \<open>The greetings that the outstanding callbacks publish, in order.\<close>

definition greetings_of :: "profile_answers \<Rightarrow> (string \<times> conv_id) list \<Rightarrow> request list" where
  "greetings_of resp ps =
     map (\<lambda>(u, c). PublishEvent c (PubContentEvent ''text/plain'' (greeting (resp u c)))) ps"

text \<open>
  The shape of every request the agent issues: acknowledgements are \<^verbatim>\<open>READ\<close> of one
  sequence number (line 115), rings are only accepted (line 47), the agent only goes
  \<^verbatim>\<open>ONLINE\<close> (line 32), conversation fields only close (lines 137--141), and
  published content is \<^verbatim>\<open>text/plain\<close> (lines 72, 147).
\<close>

fun request_wf :: "request \<Rightarrow> bool" where
  "request_wf (PublishEvent d (PubAcceptStatusEvent st ns)) = (st = ''READ'' \<and> length ns = 1)"
| "request_wf (PublishEvent d (PubContentEvent t m)) = (t = ''text/plain'')"
| "request_wf (UpdateRingState r st) = (st = ''ACCEPTED'')"
| "request_wf (SetAgentState st) = (st = ''ONLINE'')"
| "request_wf (UpdateConversationField d fs) = (fs = [ConversationStateField ''CLOSE''])"
| "request_wf r = True"

section \<open>Lemmas\<close>

subsection \<open>Counting\<close>

lemma quiet_request_uncounted:
  "quiet_request r \<Longrightarrow> \<not> is_lookup c r \<and> \<not> is_subscription c r \<and> \<not> is_greeting c r"
  by (induction r rule: quiet_request.induct) auto

lemma filter_quiet [simp]:
  "list_all quiet_request rs \<Longrightarrow>
     filter (is_lookup c) rs = [] \<and> filter (is_subscription c) rs = [] \<and> filter (is_greeting c) rs = []"
  by (induction rs) (simp_all add: quiet_request_uncounted)

lemma balanced_quiet_emit:
  assumes "admissions_balanced s c" and "outbox t = outbox s @ rs"
    and "pending_profiles t = pending_profiles s" and "list_all quiet_request rs"
  shows "admissions_balanced t c"
  using assms by (simp add: admissions_balanced_def)

lemma count_remove1_snd:
  "x \<in> set xs \<Longrightarrow>
     count_list (map snd xs) c = count_list (map snd (remove1 x xs)) c + (if snd x = c then 1 else 0)"
  by (induction xs) auto

lemma starts_with_greeting [simp]: "starts_with (greeting resp) greeting_prefix"
  by (simp add: greeting_def greeting_prefix_def starts_with_append)

subsection \<open>Each handler keeps admissions balanced\<close>

lemma on_conv_change_log:
  "(outbox (fst (on_conv_change s c)) = outbox s \<and>
    pending_profiles (fst (on_conv_change s c)) = pending_profiles s) \<or>
   (\<exists>uid. outbox (fst (on_conv_change s c)) =
            outbox s @ [GetUserProfile uid (cc_conv_id c), SubscribeMessagingEvents (cc_conv_id c)] \<and>
          pending_profiles (fst (on_conv_change s c)) = pending_profiles s @ [(uid, cc_conv_id c)])"
  by (auto simp: on_conv_change_def Let_def split: sum.splits)

lemma on_conv_change_balanced:
  "admissions_balanced s k \<Longrightarrow> admissions_balanced (fst (on_conv_change s c)) k"
  using on_conv_change_log [of s c] by (auto simp: admissions_balanced_def)

lemma on_conv_changes_balanced:
  "admissions_balanced s k \<Longrightarrow> admissions_balanced (fst (on_conv_changes s cs)) k"
proof (induction cs arbitrary: s)
  case (Cons c cs)
  obtain s' e where h: "on_conv_change s c = (s', e)" by fastforce
  from on_conv_change_balanced [OF Cons.prems, of c] h have "admissions_balanced s' k" by simp
  with Cons.IH h show ?case by (cases e) simp_all
qed simp

lemma ack_and_reply_quiet:
  "\<forall>ce. list_all quiet_request (fst (reply ce)) \<Longrightarrow> list_all quiet_request (fst (ack_and_reply reply ces))"
  by (rule ack_and_reply_all) (simp_all add: read_ack_def)

lemma on_user_profile_balanced:
  assumes "admissions_balanced s c" and "(uid, cid) \<in> set (pending_profiles s)"
  shows "admissions_balanced (on_user_profile s uid cid resp) c"
  using assms count_remove1_snd [OF assms(2), of c]
  by (auto simp: admissions_balanced_def on_user_profile_def)

lemma handle_balanced:
  assumes "admissions_balanced s c" and "\<forall>ce. list_all quiet_request (fst (reply_fn s ce))"
  shows "admissions_balanced (fst (handle s n)) c"
proof (cases n)
  case Connected
  with assms(1) show ?thesis
    by (auto simp: handle_def on_connected_def intro: balanced_quiet_emit)
next
  case (RoutingTaskNotification cs)
  with assms(1) show ?thesis
    by (auto simp: handle_def on_routing_task_notification_def routing_requests_eq list_all_iff
             intro: balanced_quiet_emit)
next
  case (ExConversationChangeNotification cs)
  with assms(1) show ?thesis by (simp add: handle_def on_conv_changes_balanced)
next
  case (MessagingEventNotification b)
  with assms show ?thesis
    by (auto simp: handle_def on_messaging_event_split intro: balanced_quiet_emit ack_and_reply_quiet)
next
  case (UserProfileResponse uid cid resp)
  with assms(1) show ?thesis by (simp add: handle_def on_user_profile_balanced)
qed

lemma reachable_balanced:
  "reachable reply s \<Longrightarrow> \<forall>ce. list_all quiet_request (fst (reply ce)) \<Longrightarrow> admissions_balanced s c"
proof (induction rule: reachable_inv_rule)
  case init
  then show ?case by (simp add: admissions_balanced_def new_agent_def)
qed (simp add: handle_balanced)

lemma example_reply_quiet: "list_all quiet_request (fst (example_reply ce))"
  by (simp add: example_reply_def greeting_prefix_def split: js_value.splits)

subsection \<open>Progress of profile lookups\<close>

lemma deliver_pending:
  "(uid, cid) \<in> set (pending_profiles s) \<Longrightarrow> agent_step s (on_user_profile s uid cid resp)"
  using agent_step.deliver [of s "UserProfileResponse uid cid resp"]
  by (simp add: enabled_def handle_def)

lemma reachable_star:
  "agent_step\<^sup>*\<^sup>* s t \<Longrightarrow> reachable reply s \<Longrightarrow> reachable reply t"
  by (induction rule: rtranclp_induct) (auto intro: reachable.step)

subsection \<open>The settling loop\<close>

lemma deliver_next_Cons:
  "pending_profiles s = (u, c) # ps \<Longrightarrow>
     pending_profiles (deliver_next resp s) = ps \<and>
     outbox (deliver_next resp s) = outbox s @ greetings_of resp [(u, c)] \<and>
     open_convs (deliver_next resp s) = open_convs s"
  by (simp add: deliver_next_def on_user_profile_def greetings_of_def)

lemma deliver_next_step:
  assumes "pending_profiles s \<noteq> []"
  shows "agent_step s (deliver_next resp s)"
proof -
  from assms obtain u c ps where p: "pending_profiles s = (u, c) # ps" by (auto simp: neq_Nil_conv)
  then have "(u, c) \<in> set (pending_profiles s)" by simp
  from deliver_pending [OF this, of "resp u c"] p show ?thesis by (simp add: deliver_next_def)
qed

lemma settle_Some: "\<exists>t. settle resp s = Some t"
  unfolding settle_def
proof (rule measure_while_option_Some [where P = "\<lambda>_. True" and f = "\<lambda>s. length (pending_profiles s)"])
  fix t :: agent
  assume "pending_profiles t \<noteq> []"
  then obtain u c ps where "pending_profiles t = (u, c) # ps" by (auto simp: neq_Nil_conv)
  then show "True \<and> length (pending_profiles (deliver_next resp t)) < length (pending_profiles t)"
    by (simp add: deliver_next_Cons)
qed simp

lemma settle_star: "settle resp s = Some t \<Longrightarrow> agent_step\<^sup>*\<^sup>* s t"
  unfolding settle_def
  by (rule while_option_rule [where P = "\<lambda>t. agent_step\<^sup>*\<^sup>* s t"])
     (auto intro: rtranclp.rtrancl_into_rtrancl deliver_next_step)

lemma settle_result:
  assumes "settle resp s = Some t"
  shows "pending_profiles t = [] \<and> open_convs t = open_convs s \<and>
         outbox t = outbox s @ greetings_of resp (pending_profiles s)"
proof -
  let ?P = "\<lambda>t. open_convs t = open_convs s \<and>
              outbox t @ greetings_of resp (pending_profiles t) =
              outbox s @ greetings_of resp (pending_profiles s)"
  have "?P t"
  proof (rule while_option_rule [where P = ?P, OF _ assms [unfolded settle_def]])
    fix x :: agent
    assume "?P x" and "pending_profiles x \<noteq> []"
    then obtain u c ps where "pending_profiles x = (u, c) # ps" by (auto simp: neq_Nil_conv)
    with \<open>?P x\<close> show "?P (deliver_next resp x)"
      by (simp add: deliver_next_Cons greetings_of_def)
  qed simp
  moreover have "pending_profiles t = []"
    using while_option_stop [OF assms [unfolded settle_def]] by simp
  ultimately show ?thesis by (simp add: greetings_of_def)
qed

subsection \<open>Shape of the issued requests\<close>

lemma on_conv_change_wf_requests:
  "\<exists>rs. outbox (fst (on_conv_change s c)) = outbox s @ rs \<and> list_all request_wf rs"
  by (auto simp: on_conv_change_def Let_def split: sum.splits)

lemma on_conv_changes_wf_requests:
  "\<exists>rs. outbox (fst (on_conv_changes s cs)) = outbox s @ rs \<and> list_all request_wf rs"
proof (induction cs arbitrary: s)
  case (Cons c cs)
  obtain s' e where h: "on_conv_change s c = (s', e)" by fastforce
  from on_conv_change_wf_requests [of s c] h obtain rs where
    rs: "outbox s' = outbox s @ rs" "list_all request_wf rs" by auto
  show ?case
  proof (cases e)
    case None
    from Cons.IH [of s'] obtain rs' where
      "outbox (fst (on_conv_changes s' cs)) = outbox s' @ rs'" "list_all request_wf rs'" by blast
    with h None rs show ?thesis by (intro exI [of _ "rs @ rs'"]) simp
  next
    case (Some x)
    with h rs show ?thesis by auto
  qed
qed simp

lemma ack_and_reply_wf:
  "\<forall>ce. list_all request_wf (fst (reply ce)) \<Longrightarrow> list_all request_wf (fst (ack_and_reply reply ces))"
  by (rule ack_and_reply_all) (simp_all add: read_ack_def)

lemma example_reply_wf: "list_all request_wf (fst (example_reply ce))"
  by (simp add: example_reply_def split: js_value.splits)

lemma handle_wf_requests:
  assumes "\<forall>ce. list_all request_wf (fst (reply_fn s ce))"
  shows "\<exists>rs. outbox (fst (handle s n)) = outbox s @ rs \<and> list_all request_wf rs"
proof (cases n)
  case (ExConversationChangeNotification cs)
  then show ?thesis using on_conv_changes_wf_requests [of s cs] by (simp add: handle_def)
next
  case (MessagingEventNotification b)
  with assms show ?thesis by (auto simp: handle_def on_messaging_event_split intro: ack_and_reply_wf)
next
  case (RoutingTaskNotification cs)
  then show ?thesis
    by (auto simp: handle_def on_routing_task_notification_def routing_requests_eq list_all_iff)
qed (auto simp: handle_def on_connected_def on_user_profile_def greeting_def)

lemma reachable_wf_requests:
  "reachable reply s \<Longrightarrow> \<forall>ce. list_all request_wf (fst (reply ce)) \<Longrightarrow> list_all request_wf (outbox s)"
proof (induction rule: reachable_inv_rule)
  case init
  then show ?case by (simp add: new_agent_def)
next
  case (step s n)
  with handle_wf_requests [of s n] obtain rs where
    "outbox (fst (handle s n)) = outbox s @ rs" "list_all request_wf rs" by auto
  with step show ?case by simp
qed

end
