(* ===== verification/Spec2Isabelle.thy ===== *)
theory Spec2Isabelle
  imports Agent_Progress
begin

text \<open>
  \<^bold>\<open>What is verified.\<close> The program is \<^verbatim>\<open>src/examples/agent.js\<close>: a class
  \<^verbatim>\<open>MyCoolAgent\<close> extending the platform client \<^verbatim>\<open>lib/AgentSDK\<close> (not among the
  sources). Its \<^verbatim>\<open>init\<close> keeps one piece of state, the plain object
  \<^verbatim>\<open>openConvs\<close> (the conversation registry), and registers four handlers: on
  \<^verbatim>\<open>connected\<close> it goes online and subscribes; on a routing-task notification it
  accepts every waiting ring; on a conversation-change notification it maintains the
  registry, looks up the consumer's profile (whose callback publishes a greeting) and
  subscribes to the conversation's messaging events; on a messaging-event notification it
  collects the consumer messages not yet read by itself into the object
  \<^verbatim>\<open>respond\<close>, then acknowledges each (\<^verbatim>\<open>READ\<close>) and hands it to the reply function
  given to the constructor. The example's reply function closes the conversation on
  \<^verbatim>\<open>#close\<close> and echoes otherwise. Handlers share only \<^verbatim>\<open>openConvs\<close>; they
  interact with the platform through requests.

  \<^bold>\<open>How the code is modelled.\<close> A shallow embedding, one theory per component:
  \<^item> \<open>Agent_Prelude\<close>: the JavaScript the code relies on. \<open>js_has\<close>, \<open>js_put\<close>,
    \<open>js_delete\<close> read and write a plain object whose lookups also see the names of
    \<^verbatim>\<open>Object.prototype\<close>; \<open>obj_set\<close>, \<open>obj_delete\<close> are assignment and delete on an
    object as an insertion-ordered association list (\<^verbatim>\<open>Object.keys\<close> order; the keys
    \<^verbatim>\<open>`${dialogId}-${seq}`\<close> are never array indices); \<open>dec_string\<close> prints a
    sequence number as a template literal does and \<open>dec_value\<close> parses it;
    \<open>starts_with\<close> is \<^verbatim>\<open>String.prototype.startsWith\<close>.
  \<^item> \<open>Agent_Platform\<close>: the requests the agent issues (\<open>request\<close>, one constructor
    per SDK method called), the agent state \<open>agent\<close> (\<open>open_convs\<close> is
    \<^verbatim>\<open>openConvs\<close>, \<open>reply_fn\<close> is \<^verbatim>\<open>replyFunction\<close>, \<open>pending_profiles\<close> are the
    \<^verbatim>\<open>getUserProfile\<close> callbacks not yet run, \<open>outbox\<close> the requests issued so far
    in issue order), the constructor \<open>new_agent\<close> and \<open>emit\<close>. Request callbacks
    that only log are not modelled.
  \<^item> \<open>Ring_Acceptance\<close>: \<open>on_routing_task_notification\<close> (lines 40--53) with its two
    loops \<open>routing_requests\<close>, \<open>accept_waiting_rings\<close>.
  \<^item> \<open>Conversation_Lifecycle\<close>: \<open>on_conv_change\<close> (one change, lines 58--82, every
    branch, including the \<^verbatim>\<open>TypeError\<close> of \<^verbatim>\<open>[0].id\<close> through
    \<open>first_consumer_id\<close>) and \<open>on_conv_changes\<close> (the batch, which an exception ends,
    having applied a prefix of its records: \<open>on_conv_changes_applied\<close>);
    the abstract registry contract \<open>registry_step\<close> and the spec's I1 reading
    \<open>last_decision\<close>.
  \<^item> \<open>Message_Reconciliation\<close>: \<open>respond_step\<close> and \<open>collect_respond\<close> (the first
    loop, lines 89--108), \<open>delete_read\<close>, \<open>respond_key\<close>, \<open>read_ack\<close>,
    \<open>respond_requests\<close> and \<open>ack_and_reply\<close> (the second loop, lines 110--118, which
    an exception of the reply function ends after that entry's acknowledgement) and
    \<open>on_messaging_event\<close>; the spec's pending-reply map \<open>pending_spec\<close> with the
    abstraction \<open>abs_respond\<close>, and the declarative \<open>survives\<close>. Every lemma holds for
    any reply function: the reply policy is the interface parameter \<open>reply_fn\<close>, a
    function from the content event to the requests it issues and the exception it
    throws, if any. A message is a \<open>js_value\<close>: a string or any other value.
  \<^item> \<open>Reply_Policy\<close>: \<open>example_reply\<close> (lines 134--150), which throws the
    \<^verbatim>\<open>TypeError\<close> of \<^verbatim>\<open>startsWith\<close> on a non-string message, and
    \<open>example_agent\<close> (lines 129--133).
  \<^item> \<open>Agent_Loop\<close>: \<open>on_connected\<close> (lines 30--37), the profile callback
    \<open>on_user_profile\<close> (lines 67--76), the dispatch \<open>handle\<close> of a
    \<open>notification\<close> to its handler, the deterministic \<open>run\<close> of a notification
    sequence (errors are collected and the next notification is handled from the state
    the throw left), and the event loop as the relation \<open>agent_step\<close> in which a pending
    lookup may complete at any later turn, with \<open>reachable\<close> states from construction
    and the derived rule \<open>reachable_inv_rule\<close> that lifts an invariant of single
    deliveries to all reachable states.
  \<^item> \<open>Agent_Progress\<close>: properties across handlers: the per-conversation accounting
    \<open>admissions_balanced\<close> of lookups, subscriptions, greetings and pending lookups
    (with the request classifiers \<open>is_lookup\<close>, \<open>is_subscription\<close>,
    \<open>is_greeting\<close>, \<open>quiet_request\<close>), the draining of pending lookups, and the
    later turns of the event loop when no notification arrives (spec section 5):
    \<open>deliver_next\<close> runs the oldest outstanding \<^verbatim>\<open>getUserProfile\<close> callback and
    \<open>settle\<close> repeats it with \<open>while_option\<close> until none is outstanding.
  Errors are values: a handler returns the state and a \<open>js_error option\<close>, since the
  mutations before a throw persist.

  \<^bold>\<open>What is proved\<close> (this theory, claims C1--C30). Message reconciliation: exactly
  one acknowledgement and one reply per surviving message, with the survivors
  characterised declaratively (C1, C2); the membership gate (C3); the dedup object refines
  the spec's pending-reply map (C5); acknowledgements follow the arrival order of the
  messages (C17); deleting by key is deleting by sequence number (C19, equivalence); at
  most \<open>k + 1\<close> requests per change for a reply function issuing at most \<open>k\<close> (C20,
  bounds); the dedup object is well formed (C21); a duplicated sequence number is
  answered once, with the later message (C22); a message read and delivered again in one
  batch is answered last (C24); in general the second loop runs in the insertion order of
  the spec's pending-reply set (C26, refinement of a queue of sequence numbers). The
  example agent end to end: the exact acknowledgements, closes and echoes it issues for a
  batch of fresh text messages (C15). Event loop: per conversation, subscriptions equal
  lookups and every lookup is greeted or pending (C23); the later turns that run the
  outstanding callbacks stop, with exactly the greetings of the outstanding lookups
  (C25, termination); every issued request has the agent's shape (C29). Registry: spec
  invariant I1 over any run without exceptions (C4), and over any run at all, in terms of
  the prefix of each batch that was applied (C30); the registry refines its set contract
  (C6); re-assignment is a no-op (C13); the invariant of all reachable states (C12). Rings:
  exactly the waiting rings of upserts are accepted (C7). Findings, each proved as the
  code behaves: a missing consumer aborts the batch (C8) and leaves a registered
  conversation never subscribed (C9); acknowledgement and reply follow
  \<^verbatim>\<open>body.dialogId\<close> while the gate tests \<^verbatim>\<open>c.dialogId\<close> (C10); the names of
  \<^verbatim>\<open>Object.prototype\<close> pass the gate (C11), which is why C4 and C6 exclude them; the
  greeting continuation does not re-check the registry (C14), so a conversation
  transferred away is still greeted (C27); any own accept-status event, not only
  \<^verbatim>\<open>READ\<close>, suppresses a reply (C16); a reply function that throws (the example one on
  a non-string message) leaves the later messages of the batch unacknowledged and
  unanswered (C18); a throwing batch leaves the registry as its prefix up to the throwing
  record decides (C28).

  \<^bold>\<open>Bounds and termination.\<close> Every loop of the code is a \<^verbatim>\<open>forEach\<close> over a
  finite array and is modelled by structural recursion; \<open>dec_string\<close> recurses on
  \<open>n div 10\<close>. No fuel or bound is needed. Sequence numbers are unbounded naturals: the
  code only prints and compares them. The event loop \<open>agent_step\<close> may run forever;
  the settling loop \<open>settle\<close> is a \<open>while_option\<close>, whose \<open>None\<close> would be
  divergence; C25 proves it returns \<open>Some\<close>, with the number of outstanding callbacks
  as measure (each turn removes the oldest one).

  \<^bold>\<open>Not modelled.\<close> The SDK's transport, authentication, reconnection and request
  failures (their callbacks only log); the SDK's event emitter, which is why the
  dispatcher is partly modelled: \<open>handle\<close> translates the \<^verbatim>\<open>this.on\<close>
  registrations of the code, while the delivery of notifications and of callback turns
  (\<open>run\<close>, \<open>agent_step\<close>, \<open>settle\<close>) follows the spec's scheduling model, the
  SDK not being among the sources; the \<^verbatim>\<open>conf\<close> object of the example agent
  (credentials read from \<^verbatim>\<open>process.env\<close> on lines 129--133, handed to the SDK only);
  logging; \<^verbatim>\<open>JSON.stringify\<close> of a profile (the response is taken as its text). A
  non-string message is not distinguished further: a missing field and an object behave
  alike in the code. Sequence numbers are naturals printed in decimal: a JavaScript
  number at or above \<open>10\<^sup>21\<close> prints in exponent form and one above
  \<open>2\<^sup>53\<close> loses precision, both far beyond the platform's per-conversation
  counters.

  \<^bold>\<open>Open questions.\<close> Acknowledgements are related to the messages of the same
  notification only (C1, C2); that every \<^verbatim>\<open>READ\<close> of a reachable state names a
  message some notification delivered would need the delivered notifications as part of
  the state. Everything the sources do beyond that is modelled; what remains is the SDK.
\<close>

section \<open>Example data for the witnesses\<close>

abbreviation consumer_msg :: "conv_id \<Rightarrow> nat \<Rightarrow> string \<Rightarrow> msg_change" where
  "consumer_msg d n m \<equiv>
     \<lparr>mc_dialog_id = d, mc_sequence = n, mc_event = ContentEvent (JsString m), mc_is_me = False\<rparr>"

abbreviation nontext_msg :: "conv_id \<Rightarrow> nat \<Rightarrow> msg_change" where
  "nontext_msg d n \<equiv>
     \<lparr>mc_dialog_id = d, mc_sequence = n, mc_event = ContentEvent JsNonString, mc_is_me = False\<rparr>"

abbreviation own_status :: "conv_id \<Rightarrow> string \<Rightarrow> nat list \<Rightarrow> msg_change" where
  "own_status d st ns \<equiv>
     \<lparr>mc_dialog_id = d, mc_sequence = 0, mc_event = AcceptStatusEvent st ns, mc_is_me = True\<rparr>"

abbreviation batch :: "conv_id \<Rightarrow> msg_change list \<Rightarrow> messaging_notification" where
  "batch d cs \<equiv> \<lparr>mn_dialog_id = d, mn_changes = cs\<rparr>"

abbreviation agent_owning :: "conv_id list \<Rightarrow> agent" where
  "agent_owning ks \<equiv> (new_agent example_reply)\<lparr>open_convs := map_of (map (\<lambda>k. (k, ())) ks)\<rparr>"

abbreviation assigned_upsert :: "conv_id \<Rightarrow> string \<Rightarrow> conv_change" where
  "assigned_upsert cid uid \<equiv>
     \<lparr>cc_type = UPSERT, cc_conv_id = cid, cc_my_role = ''ASSIGNED_AGENT'',
      cc_participants = [\<lparr>participant_id = uid, participant_role = ''CONSUMER''\<rparr>]\<rparr>"

abbreviation role_upsert :: "conv_id \<Rightarrow> string \<Rightarrow> conv_change" where
  "role_upsert cid role \<equiv>
     \<lparr>cc_type = UPSERT, cc_conv_id = cid, cc_my_role = role, cc_participants = []\<rparr>"

lemmas conv_eval = handle_def on_conv_change_def first_consumer_id_def new_agent_def
  js_has_def js_put_def js_delete_def object_prototype_keys_def Let_def emit_def

section \<open>Message reconciliation\<close>

text \<open>
  C1. Exactly-once acknowledgement and reply (spec invariant I2). Handling a messaging
  notification runs the acknowledge-then-reply loop over a list of content events with
  pairwise distinct sequence numbers: the sequence numbers are exactly those that some
  registered consumer content event inserts and no later own accept-status event
  removes, and every event is addressed to the notification's dialog. When no reply
  throws, the loop appends one \<^verbatim>\<open>READ\<close> acknowledgement followed by the reply
  function's requests per event.
\<close>

theorem messaging_exactly_once:
  "\<exists>ces. on_messaging_event s b =
            (emit s (fst (ack_and_reply (reply_fn s) ces)), snd (ack_and_reply (reply_fn s) ces))
     \<and> (list_all (\<lambda>ce. snd (reply_fn s ce) = None) ces \<longrightarrow>
          ack_and_reply (reply_fn s) ces = (concat (map (\<lambda>ce. read_ack ce # fst (reply_fn s ce)) ces), None))
     \<and> distinct (map ce_sequence ces)
     \<and> set (map ce_sequence ces) = {n. survives (open_convs s) (mn_changes b) n}
     \<and> set (map ce_dialog_id ces) \<subseteq> {mn_dialog_id b}"
proof -
  let ?r = "collect_respond (open_convs s) (mn_dialog_id b) [] (mn_changes b)"
  note e = collect_respond_entries [OF refl, of "open_convs s" "mn_dialog_id b" "mn_changes b"]
  from e show ?thesis
    by (intro exI [of _ "map snd ?r"])
       (simp add: image_image on_messaging_event_split ack_and_reply_no_throw)
qed

theorem messaging_exactly_once_witness:
  "survives [''C1'' \<mapsto> ()] [consumer_msg ''C1'' 1 ''hi'', own_status ''C1'' ''READ'' [2]] 1 \<and>
   (\<exists>ces. on_messaging_event (agent_owning [''C1''])
              (batch ''C1'' [consumer_msg ''C1'' 1 ''hi'', own_status ''C1'' ''READ'' [2]]) =
            (emit (agent_owning [''C1'']) (fst (ack_and_reply example_reply ces)),
             snd (ack_and_reply example_reply ces))
     \<and> (list_all (\<lambda>ce. snd (example_reply ce) = None) ces \<longrightarrow>
          ack_and_reply example_reply ces = (concat (map (\<lambda>ce. read_ack ce # fst (example_reply ce)) ces), None))
     \<and> distinct (map ce_sequence ces)
     \<and> set (map ce_sequence ces) =
         {n. survives [''C1'' \<mapsto> ()] [consumer_msg ''C1'' 1 ''hi'', own_status ''C1'' ''READ'' [2]] n}
     \<and> set (map ce_dialog_id ces) \<subseteq> {''C1''})"
  using messaging_exactly_once [of "agent_owning [''C1'']"
      "batch ''C1'' [consumer_msg ''C1'' 1 ''hi'', own_status ''C1'' ''READ'' [2]]"]
  by (simp add: new_agent_def inserts_def acks_def js_has_def)

text \<open>
  C2. Exactly one read acknowledgement per surviving message (spec I2, counted). With
  the example reply function, the requests one messaging notification adds contain the
  acknowledgement \<^verbatim>\<open>AcceptStatusEvent(READ, [n])\<close> for its dialog exactly once when
  \<open>n\<close> survives the batch, and never otherwise, provided no content event of the batch
  carries a non-string message (C18 covers that case).
\<close>

theorem read_acks_exactly_once:
  assumes "reply_fn s = example_reply" and "list_all text_or_other (mn_changes b)"
  shows "count_list (drop (length (outbox s)) (outbox (fst (on_messaging_event s b))))
           (PublishEvent (mn_dialog_id b) (PubAcceptStatusEvent ''READ'' [n]))
         = (if survives (open_convs s) (mn_changes b) n then 1 else 0)"
proof -
  let ?r = "collect_respond (open_convs s) (mn_dialog_id b) [] (mn_changes b)"
  note e = collect_respond_entries [OF refl, of "open_convs s" "mn_dialog_id b" "mn_changes b"]
  have out: "drop (length (outbox s)) (outbox (fst (on_messaging_event s b))) =
               concat (map (\<lambda>ce. read_ack ce # fst (example_reply ce)) (map snd ?r))"
    using assms by (simp add: on_messaging_event_split example_reply_collect)
  have d: "set (map ce_dialog_id (map snd ?r)) \<subseteq> {mn_dialog_id b}"
    and u: "distinct (map ce_sequence (map snd ?r))"
    using e by (simp_all add: image_image)
  have "n \<in> set (map ce_sequence (map snd ?r)) \<longleftrightarrow> survives (open_convs s) (mn_changes b) n"
    using e(2) by (auto simp: image_image)
  with count_read_acks [OF d u, of n] out show ?thesis by simp
qed

theorem read_acks_exactly_once_witness:
  "reply_fn (agent_owning [''C1'']) = example_reply \<and>
   list_all text_or_other [consumer_msg ''C1'' 1 ''hi''] \<and>
   count_list (drop (length (outbox (agent_owning [''C1''])))
       (outbox (fst (on_messaging_event (agent_owning [''C1'']) (batch ''C1'' [consumer_msg ''C1'' 1 ''hi''])))))
     (PublishEvent ''C1'' (PubAcceptStatusEvent ''READ'' [1])) = 1"
  using read_acks_exactly_once [of "agent_owning [''C1'']" "batch ''C1'' [consumer_msg ''C1'' 1 ''hi'']" 1]
  by (simp add: new_agent_def inserts_def acks_def js_has_def text_or_other_def)

text \<open>
  C3. Membership gate (spec invariant I3). A messaging notification none of whose
  changes names a conversation the registry answers for leaves the agent unchanged:
  no acknowledgement, no reply, no state change.
\<close>

theorem messaging_gate:
  assumes "list_all (\<lambda>c. \<not> js_has (open_convs s) (mc_dialog_id c)) (mn_changes b)"
  shows "on_messaging_event s b = (s, None)"
  using assms by (simp add: on_messaging_event_def respond_requests_def collect_respond_unregistered)

theorem messaging_gate_witness:
  "list_all (\<lambda>c. \<not> js_has [''C1'' \<mapsto> ()] (mc_dialog_id c)) [consumer_msg ''C2'' 1 ''hi''] \<and>
   on_messaging_event (agent_owning [''C1'']) (batch ''C2'' [consumer_msg ''C2'' 1 ''hi''])
     = (agent_owning [''C1''], None)"
  using messaging_gate [of "agent_owning [''C1'']" "batch ''C2'' [consumer_msg ''C2'' 1 ''hi'']"]
  by (simp add: js_has_def object_prototype_keys_def)

section \<open>Conversation lifecycle, ring acceptance and their refinements\<close>




text \<open>
  C5. The dedup object refines the pending-reply set (spec sections 3 and 4.4). When
  every change of a messaging notification carries the notification's dialog id, the
  string-keyed object \<^verbatim>\<open>respond\<close> read back through its keys is the map of pending
  replies keyed by (conversation id, sequence number) that the spec's algorithm builds:
  insert on a consumer content event, remove on an own accept-status event.
\<close>

theorem respond_refines_pending:
  assumes "list_all (\<lambda>c. mc_dialog_id c = mn_dialog_id b) (mn_changes b)"
  shows "abs_respond (mn_dialog_id b) (collect_respond (open_convs s) (mn_dialog_id b) [] (mn_changes b))
           = pending_spec (open_convs s) (mn_changes b)"
  using assms abs_respond_collect [of "mn_changes b" "mn_dialog_id b" "open_convs s" "[]"]
  by (simp add: pending_spec_def list_all_iff)

theorem respond_refines_pending_witness:
  "list_all (\<lambda>c. mc_dialog_id c = ''C1'') [consumer_msg ''C1'' 1 ''a'', own_status ''C1'' ''READ'' [1], consumer_msg ''C1'' 2 ''b''] \<and>
   abs_respond ''C1'' (collect_respond [''C1'' \<mapsto> ()] ''C1'' [] [consumer_msg ''C1'' 1 ''a'', own_status ''C1'' ''READ'' [1], consumer_msg ''C1'' 2 ''b''])
     = pending_spec [''C1'' \<mapsto> ()] [consumer_msg ''C1'' 1 ''a'', own_status ''C1'' ''READ'' [1], consumer_msg ''C1'' 2 ''b'']"
  using respond_refines_pending [of "batch ''C1'' [consumer_msg ''C1'' 1 ''a'', own_status ''C1'' ''READ'' [1], consumer_msg ''C1'' 2 ''b'']" "agent_owning [''C1'']"]
  by simp


text \<open>
  C6. The registry refines its set contract (spec sections 4.1 and 4.2). For a
  well-formed registry and a conversation id that is not an inherited name, the own keys
  after one change record are the abstract set after the contract's step: an assigning
  upsert adds, a non-assigning upsert or a delete removes, other records change nothing.
\<close>

theorem registry_refines_set:
  assumes "registry_wf s" and "proto_free (cc_conv_id c)"
  shows "dom (open_convs (fst (on_conv_change s c))) = registry_step (dom (open_convs s)) c"
  using on_conv_change_refines [OF assms] .

theorem registry_refines_set_witness:
  "registry_wf (agent_owning [''C1'']) \<and> proto_free ''C1'' \<and>
   dom (open_convs (fst (on_conv_change (agent_owning [''C1'']) (role_upsert ''C1'' ''READER'')))) = {}"
proof -
  have wf: "registry_wf (agent_owning [''C1''])"
    by (simp add: registry_wf_def proto_free_def object_prototype_keys_def)
  have p: "proto_free (cc_conv_id (role_upsert ''C1'' ''READER''))"
    by (simp add: proto_free_def object_prototype_keys_def)
  from registry_refines_set [OF wf p] wf p show ?thesis
    by (simp add: registry_step_def)
qed


text \<open>
  C7. Ring acceptance (spec section 4.3). A routing-task notification issues exactly one
  \<^verbatim>\<open>updateRingState(ACCEPTED)\<close> per waiting ring detail of its upsert changes, in
  notification order, and nothing else; the registry is untouched.
\<close>

theorem ring_acceptance_exact:
  "outbox (on_routing_task_notification s cs) =
     outbox s @ map (\<lambda>r. UpdateRingState (ring_id r) ''ACCEPTED'') (waiting_rings_of cs) \<and>
   open_convs (on_routing_task_notification s cs) = open_convs s"
  by (simp add: on_routing_task_notification_def routing_requests_eq)

theorem ring_acceptance_exact_witness:
  "outbox (on_routing_task_notification (agent_owning [])
      [\<lparr>rt_type = UPSERT, rings_details = [\<lparr>ring_id = ''R1'', ring_state = ''WAITING''\<rparr>,
                                          \<lparr>ring_id = ''R2'', ring_state = ''ACCEPTED''\<rparr>]\<rparr>,
       \<lparr>rt_type = DELETE, rings_details = [\<lparr>ring_id = ''R3'', ring_state = ''WAITING''\<rparr>]\<rparr>])
   = [UpdateRingState ''R1'' ''ACCEPTED'']"
  using ring_acceptance_exact [of "agent_owning []"
      "[\<lparr>rt_type = UPSERT, rings_details = [\<lparr>ring_id = ''R1'', ring_state = ''WAITING''\<rparr>,
                                          \<lparr>ring_id = ''R2'', ring_state = ''ACCEPTED''\<rparr>]\<rparr>,
        \<lparr>rt_type = DELETE, rings_details = [\<lparr>ring_id = ''R3'', ring_state = ''WAITING''\<rparr>]\<rparr>]"]
  by (simp add: waiting_rings_of_def new_agent_def)


text \<open>
  C8. A new assignment without a consumer participant throws (error path). The
  conversation has already been added to the registry when \<^verbatim>\<open>[0].id\<close> throws; no
  profile lookup and no subscription is issued for it, and the remaining changes of the
  batch are not processed at all.
\<close>

theorem consumer_missing_aborts_batch:
  assumes "assigns c" and "\<not> js_has (open_convs s) (cc_conv_id c)"
    and "first_consumer_id (cc_participants c) = Inl e"
  shows "on_conv_changes s (c # cs) = (s\<lparr>open_convs := (open_convs s)(cc_conv_id c \<mapsto> ())\<rparr>, Some e)"
proof -
  have "cc_conv_id c \<noteq> ''__proto__''"
    using assms(2) by (auto simp: js_has_def object_prototype_keys_def)
  with assms show ?thesis
    by (simp add: on_conv_change_def Let_def assigns_def js_put_def)
qed

theorem consumer_missing_aborts_batch_witness:
  "assigns (role_upsert ''C1'' ''ASSIGNED_AGENT'') \<and> \<not> js_has Map.empty ''C1'' \<and>
   on_conv_changes (agent_owning []) [role_upsert ''C1'' ''ASSIGNED_AGENT'', assigned_upsert ''C2'' ''U2'']
     = ((agent_owning [])\<lparr>open_convs := [''C1'' \<mapsto> ()]\<rparr>,
        Some (TypeError ''Cannot read properties of undefined (reading id)''))"
  using consumer_missing_aborts_batch [of "role_upsert ''C1'' ''ASSIGNED_AGENT''" "agent_owning []"
      "TypeError ''Cannot read properties of undefined (reading id)''" "[assigned_upsert ''C2'' ''U2'']"]
  by (simp add: assigns_def js_has_def object_prototype_keys_def first_consumer_id_def)



section \<open>Findings, invariants and contracts\<close>

text \<open>
  C9. Registered but never subscribed (spec 4.2 against the code). A state is reachable
  from construction in which a conversation is in the registry although no
  \<^verbatim>\<open>subscribeMessagingEvents\<close> request was ever issued for it: an assigning upsert
  without a consumer participant adds it and then throws.
\<close>

theorem registered_without_subscription:
  "\<exists>s. reachable reply s \<and> ''C1'' \<in> dom (open_convs s) \<and>
       SubscribeMessagingEvents ''C1'' \<notin> set (outbox s)"
proof -
  let ?n = "ExConversationChangeNotification [role_upsert ''C1'' ''ASSIGNED_AGENT'']"
  have "reachable reply (fst (handle (new_agent reply) ?n))"
    by (rule reachable.step [OF reachable.init agent_step.deliver]) (simp add: enabled_def)
  moreover have "''C1'' \<in> dom (open_convs (fst (handle (new_agent reply) ?n)))"
    and "SubscribeMessagingEvents ''C1'' \<notin> set (outbox (fst (handle (new_agent reply) ?n)))"
    by (simp_all add: conv_eval)
  ultimately show ?thesis by blast
qed

theorem registered_without_subscription_witness:
  "\<exists>s. reachable example_reply s \<and> ''C1'' \<in> dom (open_convs s) \<and>
       SubscribeMessagingEvents ''C1'' \<notin> set (outbox s)"
  by (rule registered_without_subscription)

text \<open>
  C10. Acknowledgement and reply go to the notification's dialog, not the change's. The
  membership test reads \<^verbatim>\<open>c.dialogId\<close>, but the stored entry, its acknowledgement and
  the reply use \<^verbatim>\<open>body.dialogId\<close>: a change of a registered conversation inside a
  notification for another dialog is acknowledged and answered in that other dialog.
\<close>

theorem reply_targets_body_dialog:
  assumes "js_has (open_convs s) (mc_dialog_id c)" and "mc_event c = ContentEvent m"
    and "\<not> mc_is_me c"
  shows "on_messaging_event s \<lparr>mn_dialog_id = d, mn_changes = [c]\<rparr> =
           (emit s (read_ack \<lparr>ce_dialog_id = d, ce_sequence = mc_sequence c, ce_message = m\<rparr> #
                    fst (reply_fn s \<lparr>ce_dialog_id = d, ce_sequence = mc_sequence c, ce_message = m\<rparr>)),
            snd (reply_fn s \<lparr>ce_dialog_id = d, ce_sequence = mc_sequence c, ce_message = m\<rparr>))"
  using assms by (simp add: on_messaging_event_split respond_step_def ack_and_reply_single del: ack_and_reply.simps)

theorem reply_targets_body_dialog_witness:
  "js_has [''C1'' \<mapsto> ()] ''C1'' \<and> \<not> js_has [''C1'' \<mapsto> ()] ''C2'' \<and>
   outbox (fst (on_messaging_event (agent_owning [''C1'']) (batch ''C2'' [consumer_msg ''C1'' 1 ''hi'']))) =
     [PublishEvent ''C2'' (PubAcceptStatusEvent ''READ'' [1]),
      PublishEvent ''C2'' (PubContentEvent ''text/plain'' ''echo : hi'')]"
  using reply_targets_body_dialog [of "agent_owning [''C1'']" "consumer_msg ''C1'' 1 ''hi''" "JsString ''hi''" "''C2''"]
  by (simp add: js_has_def object_prototype_keys_def new_agent_def read_ack_def example_reply_def)

text \<open>
  C11. Inherited names pass the membership gate. A conversation id that is a property name
  of \<^verbatim>\<open>Object.prototype\<close> (such as \<^verbatim>\<open>constructor\<close>) is treated as registered
  in every state, so a consumer message in it is acknowledged and answered even with an
  empty registry.
\<close>

theorem prototype_name_passes_gate:
  assumes "\<not> proto_free k"
  shows "on_messaging_event s \<lparr>mn_dialog_id = k, mn_changes = [consumer_msg k n m]\<rparr> =
           (emit s (read_ack \<lparr>ce_dialog_id = k, ce_sequence = n, ce_message = JsString m\<rparr> #
                    fst (reply_fn s \<lparr>ce_dialog_id = k, ce_sequence = n, ce_message = JsString m\<rparr>)),
            snd (reply_fn s \<lparr>ce_dialog_id = k, ce_sequence = n, ce_message = JsString m\<rparr>))"
  using assms js_has_proto [OF assms, of "open_convs s"]
  by (simp add: on_messaging_event_split respond_step_def ack_and_reply_single del: ack_and_reply.simps)

theorem prototype_name_passes_gate_witness:
  "\<not> proto_free ''constructor'' \<and> open_convs (new_agent example_reply) = Map.empty \<and>
   outbox (fst (on_messaging_event (new_agent example_reply) (batch ''constructor'' [consumer_msg ''constructor'' 7 ''hi'']))) =
     [PublishEvent ''constructor'' (PubAcceptStatusEvent ''READ'' [7]),
      PublishEvent ''constructor'' (PubContentEvent ''text/plain'' ''echo : hi'')]"
  using prototype_name_passes_gate [of "''constructor''" "new_agent example_reply" 7 "''hi''"]
  by (simp add: proto_free_def object_prototype_keys_def new_agent_def read_ack_def example_reply_def)

text \<open>
  C12. Invariant of the event loop. In every state reachable from construction, no own key
  of the registry is an inherited name, every profile lookup still waiting for its
  response has been issued together with the subscription of its conversation, and the
  reply function is the one passed to the constructor.
\<close>

theorem reachable_invariant:
  "reachable reply s \<Longrightarrow> registry_wf s \<and> lookups_issued s \<and> reply_fn s = reply"
  using reachable_agent_inv by (simp add: agent_inv_def)

theorem reachable_invariant_witness:
  "reachable example_reply (fst (handle (new_agent example_reply)
      (ExConversationChangeNotification [assigned_upsert ''C1'' ''U1'']))) \<and>
   lookups_issued (fst (handle (new_agent example_reply)
      (ExConversationChangeNotification [assigned_upsert ''C1'' ''U1''])))"
proof -
  have r: "reachable example_reply (fst (handle (new_agent example_reply)
      (ExConversationChangeNotification [assigned_upsert ''C1'' ''U1''])))"
    by (rule reachable.step [OF reachable.init agent_step.deliver]) (simp add: enabled_def)
  with reachable_invariant [OF r] show ?thesis by simp
qed

text \<open>
  C13. No second admission. An assigning upsert for a conversation already registered
  changes nothing: no second profile lookup, greeting or subscription.
\<close>

theorem reassign_present_noop:
  assumes "assigns c" and "js_has (open_convs s) (cc_conv_id c)"
  shows "on_conv_change s c = (s, None)"
  using assms by (simp add: on_conv_change_def assigns_def Let_def)

theorem reassign_present_noop_witness:
  "assigns (assigned_upsert ''C1'' ''U1'') \<and> js_has [''C1'' \<mapsto> ()] ''C1'' \<and>
   on_conv_change (agent_owning [''C1'']) (assigned_upsert ''C1'' ''U1'') = (agent_owning [''C1''], None)"
  using reassign_present_noop [of "assigned_upsert ''C1'' ''U1''" "agent_owning [''C1'']"]
  by (simp add: assigns_def js_has_def)

text \<open>
  C14. The greeting continuation does not re-check the registry (spec sections 5 and 9).
  When a waiting profile lookup completes, exactly one greeting is published to its
  conversation, whether or not the conversation is still registered, and the registry is
  unchanged; a failed lookup greets with the text \<^verbatim>\<open>undefined\<close>.
\<close>

theorem greeting_without_revalidation:
  assumes "(uid, cid) \<in> set (pending_profiles s)"
  shows "outbox (fst (handle s (UserProfileResponse uid cid resp))) =
           outbox s @ [PublishEvent cid (PubContentEvent ''text/plain'' (greeting resp))] \<and>
         open_convs (fst (handle s (UserProfileResponse uid cid resp))) = open_convs s"
  using assms by (simp add: handle_def on_user_profile_def)

theorem greeting_without_revalidation_witness:
  "(''U1'', ''C1'') \<in> set (pending_profiles ((agent_owning [])\<lparr>pending_profiles := [(''U1'', ''C1'')]\<rparr>)) \<and>
   \<not> js_has (open_convs (agent_owning [])) ''C1'' \<and>
   outbox (fst (handle ((agent_owning [])\<lparr>pending_profiles := [(''U1'', ''C1'')]\<rparr>)
                  (UserProfileResponse ''U1'' ''C1'' None))) =
     [PublishEvent ''C1'' (PubContentEvent ''text/plain'' ''Just joined to conversation with undefined'')]"
  using greeting_without_revalidation [of "''U1''" "''C1''" "(agent_owning [])\<lparr>pending_profiles := [(''U1'', ''C1'')]\<rparr>" None]
  by (simp add: new_agent_def js_has_def object_prototype_keys_def greeting_def)

text \<open>
  C15. The example agent's replies (spec section 4.5, the comments of lines 85 and 133).
  With the example reply function, a messaging notification of fresh consumer text
  messages with distinct sequence numbers issues, per message and in arrival order, the
  \<^verbatim>\<open>READ\<close> acknowledgement of its sequence number followed by exactly one request in
  the notification's dialog: closing the conversation (state \<^verbatim>\<open>CLOSE\<close>) when the
  text starts with \<^verbatim>\<open>#close\<close>, and otherwise the echo of the text after
  \<^verbatim>\<open>echo : \<close>; nothing throws.
\<close>

theorem example_agent_replies:
  assumes "reply_fn s = example_reply"
    and "list_all (fresh_consumer_msg (open_convs s)) (mn_changes b)"
    and "distinct (map mc_sequence (mn_changes b))"
  shows "on_messaging_event s b =
           (emit s (concat (map (\<lambda>c. [PublishEvent (mn_dialog_id b) (PubAcceptStatusEvent ''READ'' [mc_sequence c]),
                                      close_or_echo (mn_dialog_id b) (msg_text c)]) (mn_changes b))), None)"
proof -
  let ?cs = "mn_changes b" and ?d = "mn_dialog_id b"
  have texts: "list_all text_or_other ?cs"
    using assms(2) fresh_consumer_text by (auto simp: list_all_iff)
  have step: "read_ack \<lparr>ce_dialog_id = ?d, ce_sequence = mc_sequence c, ce_message = msg_value c\<rparr> #
          fst (example_reply \<lparr>ce_dialog_id = ?d, ce_sequence = mc_sequence c, ce_message = msg_value c\<rparr>) =
        [PublishEvent ?d (PubAcceptStatusEvent ''READ'' [mc_sequence c]), close_or_echo ?d (msg_text c)]"
    if "c \<in> set ?cs" for c
  proof -
    from that assms(2) obtain m where "mc_event c = ContentEvent (JsString m)"
      by (auto simp: fresh_consumer_msg_def list_all_iff)
    then have "msg_value c = JsString m" "msg_text c = m" by (simp_all add: msg_value_def msg_text_def)
    then show ?thesis by (simp add: example_reply_action read_ack_def)
  qed
  let ?r = "collect_respond (open_convs s) ?d [] ?cs"
  have "on_messaging_event s b =
          (emit s (concat (map (\<lambda>ce. read_ack ce # fst (example_reply ce)) (map snd ?r))), None)"
    using assms(1) by (simp add: on_messaging_event_split example_reply_collect [OF texts])
  also have "\<dots> = (emit s (concat (map (\<lambda>c. [PublishEvent ?d (PubAcceptStatusEvent ''READ'' [mc_sequence c]),
                                      close_or_echo ?d (msg_text c)]) ?cs)), None)"
    by (simp add: collect_respond_fresh [OF assms(2,3)] comp_def step cong: map_cong)
  finally show ?thesis .
qed

theorem example_agent_replies_witness:
  "reply_fn (agent_owning [''C1'']) = example_reply \<and>
   list_all (fresh_consumer_msg [''C1'' \<mapsto> ()]) [consumer_msg ''C1'' 1 ''#close now'', consumer_msg ''C1'' 2 ''hi''] \<and>
   distinct (map mc_sequence [consumer_msg ''C1'' 1 ''#close now'', consumer_msg ''C1'' 2 ''hi'']) \<and>
   outbox (fst (on_messaging_event (agent_owning [''C1''])
       (batch ''C1'' [consumer_msg ''C1'' 1 ''#close now'', consumer_msg ''C1'' 2 ''hi'']))) =
     [PublishEvent ''C1'' (PubAcceptStatusEvent ''READ'' [1]),
      UpdateConversationField ''C1'' [ConversationStateField ''CLOSE''],
      PublishEvent ''C1'' (PubAcceptStatusEvent ''READ'' [2]),
      PublishEvent ''C1'' (PubContentEvent ''text/plain'' ''echo : hi'')]"
  using example_agent_replies [of "agent_owning [''C1'']"
      "batch ''C1'' [consumer_msg ''C1'' 1 ''#close now'', consumer_msg ''C1'' 2 ''hi'']"]
  by (simp add: new_agent_def fresh_consumer_msg_def js_has_def close_or_echo_def msg_text_def msg_value_def)

section \<open>Status handling\<close>

text \<open>
  C16. Any own accept-status event suppresses the reply, whatever its status. The code
  tests only \<^verbatim>\<open>c.event.type === 'AcceptStatusEvent' && c.isMe()\<close>: an own
  \<^verbatim>\<open>ACCEPT\<close> (delivered) status for a message removes it from the pending replies
  just as a \<^verbatim>\<open>READ\<close> status does, so the message is neither acknowledged nor
  answered.
\<close>

theorem any_own_status_suppresses:
  assumes "js_has (open_convs s) d"
  shows "on_messaging_event s (batch d [consumer_msg d n m, own_status d st [n]]) = (s, None)"
  using assms by (simp add: on_messaging_event_def respond_requests_def respond_step_def obj_delete_filter)

theorem any_own_status_suppresses_witness:
  "js_has [''C1'' \<mapsto> ()] ''C1'' \<and>
   on_messaging_event (agent_owning [''C1'']) (batch ''C1'' [consumer_msg ''C1'' 1 ''hi'', own_status ''C1'' ''ACCEPT'' [1]])
     = (agent_owning [''C1''], None)"
  using any_own_status_suppresses [of "agent_owning [''C1'']" "''C1''" 1 "''hi''" "''ACCEPT''"]
  by (simp add: js_has_def)

section \<open>Order of acknowledgements\<close>



section \<open>A reply function that throws\<close>

text \<open>
  C18. An exception of the reply function ends the second loop (error path, spec
  section 7(b) against the code). When the reply function throws on an entry of
  \<^verbatim>\<open>respond\<close> and returned normally on every earlier one, the handler has published
  the acknowledgement and replies of each earlier entry, then the acknowledgement of the
  throwing entry and what the reply function issued before throwing, and nothing for the
  later entries: they are neither acknowledged nor answered, and the exception escapes
  the handler.
\<close>

theorem reply_throw_skips_rest:
  assumes "map snd (collect_respond (open_convs s) (mn_dialog_id b) [] (mn_changes b)) = xs @ ce # ys"
    and "list_all (\<lambda>ce. snd (reply_fn s ce) = None) xs" and "reply_fn s ce = (rs, Some e)"
  shows "on_messaging_event s b =
           (emit s (concat (map (\<lambda>ce. read_ack ce # fst (reply_fn s ce)) xs) @ read_ack ce # rs), Some e)"
  using assms by (simp add: on_messaging_event_split ack_and_reply_throw)

theorem reply_throw_skips_rest_witness:
  "map snd (collect_respond [''C1'' \<mapsto> ()] ''C1'' []
       [consumer_msg ''C1'' 1 ''a'', nontext_msg ''C1'' 2, consumer_msg ''C1'' 3 ''c'']) =
     [\<lparr>ce_dialog_id = ''C1'', ce_sequence = 1, ce_message = JsString ''a''\<rparr>] @
     \<lparr>ce_dialog_id = ''C1'', ce_sequence = 2, ce_message = JsNonString\<rparr> #
     [\<lparr>ce_dialog_id = ''C1'', ce_sequence = 3, ce_message = JsString ''c''\<rparr>] \<and>
   on_messaging_event (agent_owning [''C1''])
       (batch ''C1'' [consumer_msg ''C1'' 1 ''a'', nontext_msg ''C1'' 2, consumer_msg ''C1'' 3 ''c'']) =
     (emit (agent_owning [''C1''])
        [PublishEvent ''C1'' (PubAcceptStatusEvent ''READ'' [1]),
         PublishEvent ''C1'' (PubContentEvent ''text/plain'' ''echo : a''),
         PublishEvent ''C1'' (PubAcceptStatusEvent ''READ'' [2])],
      Some (TypeError ''contentEvent.message.startsWith is not a function''))"
proof -
  let ?cs = "[consumer_msg ''C1'' 1 ''a'', nontext_msg ''C1'' 2, consumer_msg ''C1'' 3 ''c'']"
  have r: "map snd (collect_respond (open_convs (agent_owning [''C1''])) (mn_dialog_id (batch ''C1'' ?cs)) []
              (mn_changes (batch ''C1'' ?cs))) =
     [\<lparr>ce_dialog_id = ''C1'', ce_sequence = 1, ce_message = JsString ''a''\<rparr>] @
     \<lparr>ce_dialog_id = ''C1'', ce_sequence = 2, ce_message = JsNonString\<rparr> #
     [\<lparr>ce_dialog_id = ''C1'', ce_sequence = 3, ce_message = JsString ''c''\<rparr>]"
    by (simp add: respond_step_def js_has_def respond_key_def dec_string.simps digit_char_eq)
  have x: "list_all (\<lambda>ce. snd (reply_fn (agent_owning [''C1'']) ce) = None)
             [\<lparr>ce_dialog_id = ''C1'', ce_sequence = 1, ce_message = JsString ''a''\<rparr>]"
    by (simp add: new_agent_def example_reply_def)
  have t: "reply_fn (agent_owning [''C1'']) \<lparr>ce_dialog_id = ''C1'', ce_sequence = 2, ce_message = JsNonString\<rparr> =
             ([], Some (TypeError ''contentEvent.message.startsWith is not a function''))"
    by (simp add: new_agent_def example_reply_def)
  from reply_throw_skips_rest [OF r x t] r show ?thesis
    by (simp add: new_agent_def example_reply_def read_ack_def)
qed

section \<open>Equivalence, bounds and well-formedness of the dedup object\<close>

text \<open>
  C19. Deleting by string key is deleting by sequence number (equivalence). On a
  well-formed \<^verbatim>\<open>respond\<close> object, the code's loop of
  \<^verbatim>\<open>delete respond[`${body.dialogId}-${seq}`]\<close> over a sequence list removes exactly
  the entries whose sequence number is listed, keeping the order of the others.
\<close>

theorem delete_read_by_sequence:
  assumes "respond_inv bd r"
  shows "delete_read bd ns r = filter (\<lambda>(k, ce). ce_sequence ce \<notin> set ns) r"
  using assms by (intro delete_read_keyed) (auto simp: respond_inv_def)

theorem delete_read_by_sequence_witness:
  "respond_inv ''C1'' [(respond_key ''C1'' 1, \<lparr>ce_dialog_id = ''C1'', ce_sequence = 1, ce_message = JsString ''a''\<rparr>),
                       (respond_key ''C1'' 2, \<lparr>ce_dialog_id = ''C1'', ce_sequence = 2, ce_message = JsString ''b''\<rparr>)] \<and>
   delete_read ''C1'' [2, 5]
     [(respond_key ''C1'' 1, \<lparr>ce_dialog_id = ''C1'', ce_sequence = 1, ce_message = JsString ''a''\<rparr>),
      (respond_key ''C1'' 2, \<lparr>ce_dialog_id = ''C1'', ce_sequence = 2, ce_message = JsString ''b''\<rparr>)]
   = [(respond_key ''C1'' 1, \<lparr>ce_dialog_id = ''C1'', ce_sequence = 1, ce_message = JsString ''a''\<rparr>)]"
proof -
  have inv: "respond_inv ''C1'' [(respond_key ''C1'' 1, \<lparr>ce_dialog_id = ''C1'', ce_sequence = 1, ce_message = JsString ''a''\<rparr>),
                       (respond_key ''C1'' 2, \<lparr>ce_dialog_id = ''C1'', ce_sequence = 2, ce_message = JsString ''b''\<rparr>)]"
    by (simp add: respond_inv_def respond_key_inj)
  from delete_read_by_sequence [OF inv, of "[2, 5]"] inv show ?thesis by simp
qed

text \<open>
  C20. Requests per messaging notification (bounds). If the reply function issues at most
  \<open>k\<close> requests per message, handling a messaging notification issues at most
  \<open>k + 1\<close> requests per change of the notification, whether or not a reply throws.
\<close>

theorem messaging_requests_bound:
  assumes "\<forall>ce. length (fst (reply_fn s ce)) \<le> k"
  shows "length (outbox (fst (on_messaging_event s b))) \<le> length (outbox s) + Suc k * length (mn_changes b)"
proof -
  let ?ces = "map snd (collect_respond (open_convs s) (mn_dialog_id b) [] (mn_changes b))"
  have "length (fst (ack_and_reply (reply_fn s) ?ces)) \<le> Suc k * length ?ces"
    using assms by (intro length_ack_and_reply) simp
  also have "\<dots> \<le> Suc k * length (mn_changes b)"
    by (rule mult_le_mono2)
       (use length_collect_respond [of "open_convs s" "mn_dialog_id b" "[]" "mn_changes b"] in simp)
  finally show ?thesis by (simp add: on_messaging_event_split)
qed

theorem messaging_requests_bound_witness:
  "(\<forall>ce. length (fst (reply_fn (agent_owning [''C1'']) ce)) \<le> 1) \<and>
   length (outbox (fst (on_messaging_event (agent_owning [''C1''])
       (batch ''C1'' [consumer_msg ''C1'' 1 ''a'', consumer_msg ''C1'' 2 ''b''])))) \<le> 4"
proof -
  have k: "\<forall>ce. length (fst (reply_fn (agent_owning [''C1'']) ce)) \<le> 1"
    by (simp add: new_agent_def example_reply_def split: js_value.splits)
  from messaging_requests_bound [OF k, of "batch ''C1'' [consumer_msg ''C1'' 1 ''a'', consumer_msg ''C1'' 2 ''b'']"] k
  show ?thesis by (simp add: new_agent_def)
qed

text \<open>
  C21. The dedup object is well formed (type invariant). After the first loop, the keys
  of \<^verbatim>\<open>respond\<close> are pairwise distinct and every entry is stored under the key of
  its own sequence number in the notification's dialog, and is addressed to that dialog.
\<close>

theorem respond_wellformed:
  "respond_inv (mn_dialog_id b) (collect_respond (open_convs s) (mn_dialog_id b) [] (mn_changes b))"
  by (simp add: respond_inv_collect)

theorem respond_wellformed_witness:
  "respond_inv ''C1'' (collect_respond [''C1'' \<mapsto> ()] ''C1'' []
      [consumer_msg ''C1'' 1 ''a'', consumer_msg ''C1'' 1 ''b'', consumer_msg ''C1'' 2 ''c''])"
  using respond_wellformed [of "batch ''C1'' [consumer_msg ''C1'' 1 ''a'', consumer_msg ''C1'' 1 ''b'', consumer_msg ''C1'' 2 ''c'']"
      "agent_owning [''C1'']"] by simp

text \<open>
  C22. A duplicated sequence number is answered once, with the later message. Two consumer
  content events of a registered conversation with the same sequence number in one batch
  share the key of \<^verbatim>\<open>respond\<close>: the second assignment overwrites the first, so
  one acknowledgement is published and the reply function sees only the later message.
\<close>

theorem duplicate_sequence_later_wins:
  assumes "js_has (open_convs s) d"
  shows "on_messaging_event s (batch bd [consumer_msg d n m1, consumer_msg d n m2]) =
           (emit s (read_ack \<lparr>ce_dialog_id = bd, ce_sequence = n, ce_message = JsString m2\<rparr> #
                    fst (reply_fn s \<lparr>ce_dialog_id = bd, ce_sequence = n, ce_message = JsString m2\<rparr>)),
            snd (reply_fn s \<lparr>ce_dialog_id = bd, ce_sequence = n, ce_message = JsString m2\<rparr>))"
  using assms
  by (simp add: on_messaging_event_split respond_step_def ack_and_reply_single del: ack_and_reply.simps)

theorem duplicate_sequence_later_wins_witness:
  "js_has [''C1'' \<mapsto> ()] ''C1'' \<and>
   outbox (fst (on_messaging_event (agent_owning [''C1''])
       (batch ''C1'' [consumer_msg ''C1'' 4 ''first'', consumer_msg ''C1'' 4 ''second'']))) =
     [PublishEvent ''C1'' (PubAcceptStatusEvent ''READ'' [4]),
      PublishEvent ''C1'' (PubContentEvent ''text/plain'' ''echo : second'')]"
  using duplicate_sequence_later_wins [of "agent_owning [''C1'']" "''C1''" "''C1''" 4 "''first''" "''second''"]
  by (simp add: js_has_def new_agent_def read_ack_def example_reply_def)

section \<open>Progress and accounting of admissions\<close>

text \<open>
  C23. Admissions are balanced per conversation (invariant). In every state reachable
  from the example agent, each conversation has received exactly as many
  \<^verbatim>\<open>subscribeMessagingEvents\<close> requests as profile lookups, and each lookup has
  either published its greeting or is still pending: no greeting without an admission,
  and at most one greeting per admission.
\<close>

theorem admissions_balanced_example:
  "reachable example_reply s \<Longrightarrow> admissions_balanced s c"
  using reachable_balanced example_reply_quiet by blast

theorem admissions_balanced_example_witness:
  "reachable example_reply (fst (handle (new_agent example_reply)
      (ExConversationChangeNotification [assigned_upsert ''C1'' ''U1'']))) \<and>
   admissions_balanced (fst (handle (new_agent example_reply)
      (ExConversationChangeNotification [assigned_upsert ''C1'' ''U1'']))) ''C1''"
proof -
  have r: "reachable example_reply (fst (handle (new_agent example_reply)
      (ExConversationChangeNotification [assigned_upsert ''C1'' ''U1''])))"
    by (rule reachable.step [OF reachable.init agent_step.deliver]) (simp add: enabled_def)
  from admissions_balanced_example [OF r] r show ?thesis by simp
qed

section \<open>Messages read and delivered again\<close>

text \<open>
  C24. A message read and then delivered again is answered last (ordering). When an own
  accept-status event removes the entry of sequence \<open>n1\<close> and a consumer content event
  with \<open>n1\<close> follows in the same batch, the entry is created anew at the end of
  \<^verbatim>\<open>respond\<close>: the loop acknowledges and answers \<open>n2\<close> first and then the later
  message of \<open>n1\<close>, the earlier one not at all.
\<close>

theorem redelivered_message_answered_last:
  assumes "js_has (open_convs s) d" and "n1 \<noteq> n2"
  shows "on_messaging_event s
           (batch bd [consumer_msg d n1 m1, consumer_msg d n2 m2, own_status d st [n1], consumer_msg d n1 m3]) =
         (emit s (fst (ack_and_reply (reply_fn s)
                    [\<lparr>ce_dialog_id = bd, ce_sequence = n2, ce_message = JsString m2\<rparr>,
                     \<lparr>ce_dialog_id = bd, ce_sequence = n1, ce_message = JsString m3\<rparr>])),
          snd (ack_and_reply (reply_fn s)
                    [\<lparr>ce_dialog_id = bd, ce_sequence = n2, ce_message = JsString m2\<rparr>,
                     \<lparr>ce_dialog_id = bd, ce_sequence = n1, ce_message = JsString m3\<rparr>]))"
  using assms
  by (simp add: on_messaging_event_split respond_step_def obj_delete_filter respond_key_inj
      del: ack_and_reply.simps)

theorem redelivered_message_answered_last_witness:
  "js_has [''C1'' \<mapsto> ()] ''C1'' \<and> (1::nat) \<noteq> 2 \<and>
   outbox (fst (on_messaging_event (agent_owning [''C1''])
     (batch ''C1'' [consumer_msg ''C1'' 1 ''a'', consumer_msg ''C1'' 2 ''b'', own_status ''C1'' ''READ'' [1],
                    consumer_msg ''C1'' 1 ''c'']))) =
     [PublishEvent ''C1'' (PubAcceptStatusEvent ''READ'' [2]),
      PublishEvent ''C1'' (PubContentEvent ''text/plain'' ''echo : b''),
      PublishEvent ''C1'' (PubAcceptStatusEvent ''READ'' [1]),
      PublishEvent ''C1'' (PubContentEvent ''text/plain'' ''echo : c'')]"
  using redelivered_message_answered_last [of "agent_owning [''C1'']" "''C1''" 1 2 "''C1''" "''a''" "''b''" "''READ''" "''c''"]
  by (simp add: js_has_def new_agent_def read_ack_def example_reply_def)

section \<open>Settling the outstanding callbacks\<close>

text \<open>
  C25. The later turns stop (termination). Running the outstanding \<^verbatim>\<open>getUserProfile\<close>
  callbacks one per turn, whatever the platform answers, returns: the loop ends with no
  callback outstanding, the registry unchanged, and exactly the greetings of the
  outstanding lookups appended, in the order the lookups were issued.
\<close>

theorem settle_terminates:
  "\<exists>t. settle resp s = Some t \<and> pending_profiles t = [] \<and> open_convs t = open_convs s \<and>
       outbox t = outbox s @ greetings_of resp (pending_profiles s)"
proof -
  obtain t where t: "settle resp s = Some t" using settle_Some by blast
  with settle_result [OF t] show ?thesis by blast
qed

section \<open>Iteration order of the dedup object\<close>

text \<open>
  C26. The second loop runs in insertion order (refinement of spec section 4.4, step 5).
  The sequence numbers of \<^verbatim>\<open>respond\<close> in \<^verbatim>\<open>Object.keys\<close> order are the
  pending-reply set in insertion order: a queue that appends a consumer message's
  sequence number unless it is already pending, and drops the numbers an own
  accept-status event lists.
\<close>

theorem respond_order_is_insertion_order:
  "respond_seqs (collect_respond (open_convs s) (mn_dialog_id b) [] (mn_changes b)) =
     reply_queue (open_convs s) (mn_changes b)"
  using respond_seqs_collect [OF respond_inv_Nil, of "open_convs s" "mn_dialog_id b" "mn_changes b"]
  by (simp add: reply_queue_def respond_seqs_def)

theorem respond_order_is_insertion_order_witness:
  "respond_seqs (collect_respond [''C1'' \<mapsto> ()] ''C1'' []
      [consumer_msg ''C1'' 1 ''a'', consumer_msg ''C1'' 2 ''b'', consumer_msg ''C1'' 2 ''b2'',
       own_status ''C1'' ''READ'' [1], consumer_msg ''C1'' 1 ''c'']) = [2, 1]"
  using respond_order_is_insertion_order [of "agent_owning [''C1'']"
      "batch ''C1'' [consumer_msg ''C1'' 1 ''a'', consumer_msg ''C1'' 2 ''b'', consumer_msg ''C1'' 2 ''b2'',
       own_status ''C1'' ''READ'' [1], consumer_msg ''C1'' 1 ''c'']"]
  by (simp add: reply_queue_def queue_step_def js_has_def)

section \<open>The greeting continuation over reachable states\<close>

text \<open>
  C27. A conversation transferred away is still greeted (spec section 5). A state is
  reachable from construction in which the profile lookup of \<^verbatim>\<open>C1\<close> is still
  outstanding although \<^verbatim>\<open>C1\<close> has already left the registry (an assignment, then an
  upsert giving this agent another role); delivering the lookup's response in that state
  publishes the greeting to \<^verbatim>\<open>C1\<close> and nothing else, whatever the response.
\<close>

theorem greeting_after_transfer:
  "\<exists>s. reachable reply s \<and> (''U1'', ''C1'') \<in> set (pending_profiles s) \<and>
       \<not> js_has (open_convs s) ''C1'' \<and>
       outbox (fst (handle s (UserProfileResponse ''U1'' ''C1'' r))) =
         outbox s @ [PublishEvent ''C1'' (PubContentEvent ''text/plain'' (greeting r))]"
proof -
  let ?s1 = "fst (handle (new_agent reply) (ExConversationChangeNotification [assigned_upsert ''C1'' ''U1'']))"
  let ?s2 = "fst (handle ?s1 (ExConversationChangeNotification [role_upsert ''C1'' ''READER'']))"
  have r1: "reachable reply ?s1"
    by (rule reachable.step [OF reachable.init agent_step.deliver]) (simp add: enabled_def)
  have r2: "reachable reply ?s2"
    by (rule reachable.step [OF r1 agent_step.deliver]) (simp add: enabled_def)
  moreover have p: "(''U1'', ''C1'') \<in> set (pending_profiles ?s2)" by (simp add: conv_eval)
  moreover have "\<not> js_has (open_convs ?s2) ''C1''" by (simp add: conv_eval)
  moreover have "outbox (fst (handle ?s2 (UserProfileResponse ''U1'' ''C1'' r))) =
      outbox ?s2 @ [PublishEvent ''C1'' (PubContentEvent ''text/plain'' (greeting r))]"
    using p by (simp add: handle_def on_user_profile_def)
  ultimately show ?thesis by blast
qed

section \<open>The registry after a batch that throws\<close>

text \<open>
  C28. A throwing batch leaves the registry as its prefix decides (error path of spec
  invariant I1). When a conversation-change batch throws, the throwing record is an
  assigning upsert without a consumer participant, and every id that is not an inherited
  name is registered exactly as the records up to and including that one decide: the
  records after it have no effect.
\<close>

theorem registry_after_throw:
  assumes "on_conv_changes s cs = (s', Some e)" and "proto_free k"
  shows "\<exists>i < length cs. assigns (cs ! i) \<and> first_consumer_id (cc_participants (cs ! i)) = Inl e \<and>
           (js_has (open_convs s') k \<longleftrightarrow>
              (case last_decision k (take (Suc i) cs) of
                 None \<Rightarrow> js_has (open_convs s) k | Some c \<Rightarrow> assigns c))"
proof -
  obtain b where b: "prefix b cs" "b \<noteq> []" "assigns (last b)"
      "first_consumer_id (cc_participants (last b)) = Inl e"
      "js_has (open_convs s') k \<longleftrightarrow>
         (case last_decision k b of None \<Rightarrow> js_has (open_convs s) k | Some c \<Rightarrow> assigns c)"
    using on_conv_changes_applied [OF assms] by blast
  from b(1) obtain zs where cs: "cs = b @ zs" by (auto simp: prefix_def)
  have "length b - 1 < length cs" "cs ! (length b - 1) = last b" "take (Suc (length b - 1)) cs = b"
    using b(2) cs by (simp_all add: nth_append last_conv_nth less_diff_conv2 Suc_leI)
  with b show ?thesis by (intro exI [of _ "length b - 1"]) simp
qed

theorem registry_after_throw_witness:
  "on_conv_changes (agent_owning [])
      [assigned_upsert ''C2'' ''U2'', role_upsert ''C1'' ''ASSIGNED_AGENT'', assigned_upsert ''C3'' ''U3'']
     = (fst (on_conv_changes (agent_owning [])
      [assigned_upsert ''C2'' ''U2'', role_upsert ''C1'' ''ASSIGNED_AGENT'', assigned_upsert ''C3'' ''U3'']),
        Some (TypeError ''Cannot read properties of undefined (reading id)'')) \<and>
   proto_free ''C3'' \<and>
   \<not> js_has (open_convs (fst (on_conv_changes (agent_owning [])
      [assigned_upsert ''C2'' ''U2'', role_upsert ''C1'' ''ASSIGNED_AGENT'', assigned_upsert ''C3'' ''U3'']))) ''C3''"
proof -
  let ?cs = "[assigned_upsert ''C2'' ''U2'', role_upsert ''C1'' ''ASSIGNED_AGENT'', assigned_upsert ''C3'' ''U3'']"
  have r: "on_conv_changes (agent_owning []) ?cs =
             (fst (on_conv_changes (agent_owning []) ?cs),
              Some (TypeError ''Cannot read properties of undefined (reading id)''))"
    by (simp add: conv_eval)
  have p: "proto_free ''C3''" by (simp add: proto_free_def object_prototype_keys_def)
  from registry_after_throw [OF r p] obtain i where
    i: "i < length ?cs" and a: "first_consumer_id (cc_participants (?cs ! i)) =
        Inl (TypeError ''Cannot read properties of undefined (reading id)'')"
    and h: "js_has (open_convs (fst (on_conv_changes (agent_owning []) ?cs))) ''C3'' \<longleftrightarrow>
       (case last_decision ''C3'' (take (Suc i) ?cs) of
          None \<Rightarrow> js_has (open_convs (agent_owning [])) ''C3'' | Some c \<Rightarrow> assigns c)"
    by blast
  have "i = 0 \<or> i = 1 \<or> i = 2" using i by auto
  with a have "i = 1" by (auto simp: first_consumer_id_def)
  with h have "\<not> js_has (open_convs (fst (on_conv_changes (agent_owning []) ?cs))) ''C3''"
    by (simp add: last_decision_def decides_def js_has_def object_prototype_keys_def)
  with r p show ?thesis by blast
qed

section \<open>Shape of the issued requests\<close>

text \<open>
  C29. Every issued request has the agent's shape (type invariant of the outbox). In every
  state reachable from the example agent, every acknowledgement is a \<^verbatim>\<open>READ\<close> of
  exactly one sequence number, every ring update accepts, the agent only goes
  \<^verbatim>\<open>ONLINE\<close>, every conversation-field update closes, and all published content is
  \<^verbatim>\<open>text/plain\<close>.
\<close>

theorem outbox_requests_wellformed:
  "reachable example_reply s \<Longrightarrow> list_all request_wf (outbox s)"
  using reachable_wf_requests example_reply_wf by blast

theorem outbox_requests_wellformed_witness:
  "reachable example_reply (fst (handle (new_agent example_reply) Connected)) \<and>
   list_all request_wf (outbox (fst (handle (new_agent example_reply) Connected)))"
proof -
  have r: "reachable example_reply (fst (handle (new_agent example_reply) Connected))"
    by (rule reachable.step [OF reachable.init agent_step.deliver]) (simp add: enabled_def)
  from outbox_requests_wellformed [OF r] r show ?thesis by simp
qed

section \<open>The registry over runs in which handlers throw\<close>

text \<open>
  C30. Spec invariant I1 under exceptions. After any run of notifications, whatever the
  handlers throw, each conversation-change batch has applied a prefix of its records, at
  most one batch per reported exception has been cut short, and every id that is not an
  inherited name is registered exactly as the last record deciding it among the applied
  ones says (with no such record, as initially).
\<close>

theorem registry_membership_with_errors:
  assumes "run s ns = (s', es)" and "proto_free k"
  shows "\<exists>bs. list_all2 prefix bs (conv_batches ns) \<and>
           length [p \<leftarrow> zip bs (conv_batches ns). fst p \<noteq> snd p] \<le> length es \<and>
           (js_has (open_convs s') k \<longleftrightarrow>
              (case last_decision k (concat bs) of
                 None \<Rightarrow> js_has (open_convs s) k | Some c \<Rightarrow> assigns c))"
  using assms(1)
proof (induction ns arbitrary: s es)
  case Nil
  then show ?case by (intro exI [of _ "[]"]) (simp add: last_decision_def)
next
  case (Cons n ns)
  obtain s1 e1 where h: "handle s n = (s1, e1)" by fastforce
  obtain s2 es2 where r: "run s1 ns = (s2, es2)" by fastforce
  from Cons.prems h r have s2: "s2 = s'" and es: "es = (case e1 of None \<Rightarrow> [] | Some x \<Rightarrow> [x]) @ es2"
    by auto
  from Cons.IH [of s1 es2] r s2 obtain bs where bs: "list_all2 prefix bs (conv_batches ns)"
    "length [p \<leftarrow> zip bs (conv_batches ns). fst p \<noteq> snd p] \<le> length es2"
    "js_has (open_convs s') k \<longleftrightarrow>
       (case last_decision k (concat bs) of None \<Rightarrow> js_has (open_convs s1) k | Some c \<Rightarrow> assigns c)"
    by blast
  show ?case
  proof (cases "is_conv_notification n")
    case True
    then obtain cs where n: "n = ExConversationChangeNotification cs" by (cases n) auto
    with h have "on_conv_changes s cs = (s1, e1)" by (simp add: handle_def)
    from on_conv_changes_applied [OF this assms(2)] obtain b where b: "prefix b cs"
      "e1 = None \<longrightarrow> b = cs"
      "js_has (open_convs s1) k \<longleftrightarrow>
         (case last_decision k b of None \<Rightarrow> js_has (open_convs s) k | Some c \<Rightarrow> assigns c)"
      by blast
    have "length [p \<leftarrow> zip (b # bs) (conv_batches (n # ns)). fst p \<noteq> snd p] \<le> length es"
      using bs(2) b(2) n es by (cases e1) auto
    with bs(1,3) b(1,3) n show ?thesis
      by (intro exI [of _ "b # bs"]) (simp add: last_decision_append split: option.splits)
  next
    case False
    then have "open_convs s1 = open_convs s" using handle_registry_frame [of n s] h by simp
    moreover from False have "conv_batches (n # ns) = conv_batches ns" by (cases n) auto
    moreover have "length es2 \<le> length es" using es by simp
    ultimately show ?thesis using bs by (intro exI [of _ bs]) (auto split: option.splits)
  qed
qed

theorem registry_membership_with_errors_witness:
  "run (agent_owning [])
      [ExConversationChangeNotification [role_upsert ''C1'' ''ASSIGNED_AGENT'', assigned_upsert ''C2'' ''U2''],
       ExConversationChangeNotification [assigned_upsert ''C3'' ''U3'']]
     = (fst (run (agent_owning [])
      [ExConversationChangeNotification [role_upsert ''C1'' ''ASSIGNED_AGENT'', assigned_upsert ''C2'' ''U2''],
       ExConversationChangeNotification [assigned_upsert ''C3'' ''U3'']]),
        [TypeError ''Cannot read properties of undefined (reading id)'']) \<and>
   proto_free ''C2'' \<and>
   \<not> js_has (open_convs (fst (run (agent_owning [])
      [ExConversationChangeNotification [role_upsert ''C1'' ''ASSIGNED_AGENT'', assigned_upsert ''C2'' ''U2''],
       ExConversationChangeNotification [assigned_upsert ''C3'' ''U3'']]))) ''C2'' \<and>
   (\<exists>bs. list_all2 prefix bs [[role_upsert ''C1'' ''ASSIGNED_AGENT'', assigned_upsert ''C2'' ''U2''],
                                [assigned_upsert ''C3'' ''U3'']] \<and>
         length [p \<leftarrow> zip bs [[role_upsert ''C1'' ''ASSIGNED_AGENT'', assigned_upsert ''C2'' ''U2''],
                                   [assigned_upsert ''C3'' ''U3'']]. fst p \<noteq> snd p] \<le> 1)"
proof -
  let ?ns = "[ExConversationChangeNotification [role_upsert ''C1'' ''ASSIGNED_AGENT'', assigned_upsert ''C2'' ''U2''],
       ExConversationChangeNotification [assigned_upsert ''C3'' ''U3'']]"
  have r: "run (agent_owning []) ?ns = (fst (run (agent_owning []) ?ns),
             [TypeError ''Cannot read properties of undefined (reading id)''])"
    by (simp add: conv_eval)
  have p: "proto_free ''C2''" by (simp add: proto_free_def object_prototype_keys_def)
  have "\<not> js_has (open_convs (fst (run (agent_owning []) ?ns))) ''C2''"
    by (simp add: conv_eval)
  with registry_membership_with_errors [OF r p] r p show ?thesis by auto
qed

end
